theory Spec2Isabelle
  imports
    Main
    "HOL-Library.Sublist"
    "HOL-Library.AList"
    "HOL-Library.List_Lexorder"
begin

section \<open>Python strings\<close>

text \<open>
  A Python \<open>str\<close> is a sequence of Unicode code points; \<open>len\<close> counts code points and
  comparison is lexicographic on code points.  A string is therefore a list of natural
  numbers, ordered by the lexicographic order on lists.  \<open>py\<close> turns an ASCII literal into
  such a list.
\<close>

type_synonym pystr = "nat list"

abbreviation py :: "string \<Rightarrow> pystr" where
  "py s \<equiv> map of_char s"

text \<open>
  \<open>str.isspace\<close> for one code point: the characters that \<open>str.strip()\<close> removes
  (TAB..CR, FS..US, SPACE, NEL, NBSP and the Unicode space separators).
\<close>

definition isspace :: "nat \<Rightarrow> bool" where
  "isspace c \<longleftrightarrow>
     (9 \<le> c \<and> c \<le> 13) \<or> (28 \<le> c \<and> c \<le> 32) \<or> c = 133 \<or> c = 160 \<or> c = 5760 \<or>
     (8192 \<le> c \<and> c \<le> 8202) \<or> c = 8232 \<or> c = 8233 \<or> c = 8239 \<or> c = 8287 \<or> c = 12288"

definition strip :: "pystr \<Rightarrow> pystr" where
  "strip s = rev (dropWhile isspace (rev (dropWhile isspace s)))"

text \<open>
  The character class \<open>[<>:"/\\|?*]\<close> of the two regular expressions of the source:
  code points 60, 62, 58, 34, 47, 92, 124, 63, 42.
\<close>

definition forbidden :: "nat \<Rightarrow> bool" where
  "forbidden c \<longleftrightarrow> c \<in> set [60, 62, 58, 34, 47, 92, 124, 63, 42]"

text \<open>\<open>re.search(r'[<>:"/\\|?*]', name)\<close> and \<open>re.sub(r'[<>:"/\\|?*]', '', name)\<close>.\<close>

definition re_search_forbidden :: "pystr \<Rightarrow> bool" where
  "re_search_forbidden name = list_ex forbidden name"

definition re_sub_forbidden :: "pystr \<Rightarrow> pystr" where
  "re_sub_forbidden name = filter (\<lambda>c. \<not> forbidden c) name"

text \<open>\<open>name.replace(' ', '_')\<close>.\<close>

definition replace_space :: "pystr \<Rightarrow> pystr" where
  "replace_space name = map (\<lambda>c. if c = 32 then 95 else c) name"

text \<open>
  \<open>str.lower\<close> on the letters A..Z.  No other code point has a lower case in which one of
  the letters of \<open>.jpg\<close>, \<open>.jpeg\<close>, \<open>.png\<close> occurs, so the membership test on the lowered
  extension, the only use of \<open>lower\<close> in the source, is decided as in Python.
\<close>

definition lower :: "pystr \<Rightarrow> pystr" where
  "lower s = map (\<lambda>c. if 65 \<le> c \<and> c \<le> 90 then c + 32 else c) s"

text \<open>The decimal numeral of a counter, as the f-string \<open>f"{counter}"\<close> prints it.\<close>

fun str_nat :: "nat \<Rightarrow> pystr" where
  "str_nat n = (if n < 10 then [48 + n] else str_nat (n div 10) @ [48 + n mod 10])"

declare str_nat.simps [simp del]

text \<open>\<open>line.split(sep)\<close> for a non-empty separator: leftmost, non-overlapping matches.\<close>

fun py_split :: "pystr \<Rightarrow> pystr \<Rightarrow> pystr \<Rightarrow> pystr list" where
  "py_split sep cur [] = [rev cur]"
| "py_split sep cur (c # cs) =
     (if sep \<noteq> [] \<and> prefix sep (c # cs)
      then rev cur # py_split sep [] (drop (length sep) (c # cs))
      else py_split sep (c # cur) cs)"

definition str_split :: "pystr \<Rightarrow> pystr \<Rightarrow> pystr list" where
  "str_split sep s = py_split sep [] s"


text \<open>
  \<open>f.readlines()\<close> on a file opened in text mode: universal newlines, so a line ends
  at LF, CR or CR LF, and the terminator is kept as a single LF.
\<close>

fun readlines :: "pystr \<Rightarrow> pystr list" where
  "readlines [] = []"
| "readlines (c # cs) =
     (if c = 10 then [10] # readlines cs
      else if c = 13 then
        (case cs of [] \<Rightarrow> [[10]] | d # ds \<Rightarrow> if d = 10 then [10] # readlines ds else [10] # readlines cs)
      else (case readlines cs of [] \<Rightarrow> [[c]] | l # ls \<Rightarrow> (c # l) # ls))"

section \<open>Paths\<close>

text \<open>
  \<open>os.path\<close> with the separator \<open>/\<close> (47).  \<open>os_path_join\<close> is the two-argument
  \<open>os.path.join\<close>; \<open>os_path_splitext\<close> follows \<open>genericpath._splitext\<close>: the last dot
  after the last separator starts the extension, unless only dots come before it in the
  file name.
\<close>

definition os_path_join :: "pystr \<Rightarrow> pystr \<Rightarrow> pystr" where
  "os_path_join a b =
     (if prefix [47] b then b
      else if a = [] \<or> suffix [47] a then a @ b
      else a @ [47] @ b)"

definition rfind :: "nat \<Rightarrow> pystr \<Rightarrow> int" where
  "rfind c p =
     (if c \<in> set p then int (length p) - 1 - int (length (takeWhile (\<lambda>x. x \<noteq> c) (rev p)))
      else - 1)"

definition os_path_splitext :: "pystr \<Rightarrow> pystr \<times> pystr" where
  "os_path_splitext p =
     (let sepIndex = rfind 47 p; dotIndex = rfind 46 p
      in if dotIndex > sepIndex \<and>
            list_ex (\<lambda>c. c \<noteq> 46) (take (nat (dotIndex - (sepIndex + 1))) (drop (nat (sepIndex + 1)) p))
         then (take (nat dotIndex) p, drop (nat dotIndex) p)
         else (p, []))"

text \<open>
  \<open>os.path.relpath(path, start)\<close> for a path below \<open>start\<close>, which is how the source calls
  it (the destination lies in the images directory of the base directory): the rest of
  the path after \<open>start\<close>, without the separators in front.
\<close>

definition os_path_relpath :: "pystr \<Rightarrow> pystr \<Rightarrow> pystr" where
  "os_path_relpath path start =
     (if prefix start path then dropWhile (\<lambda>c. c = 47) (drop (length start) path) else path)"

definition IMAGES_DIR :: "pystr \<Rightarrow> pystr" where
  "IMAGES_DIR BASE_DIR = os_path_join BASE_DIR (py ''images'')"

section \<open>The catalog and the state of the application\<close>

text \<open>
  The document \<open>{"bands": {b: {"albums": {a: {"image": ...}}}}}\<close>.  A Python dict is an
  association list in insertion order: \<open>map_of\<close> is the lookup, \<open>AList.update\<close> the
  assignment (in place for a key that is there, at the end for a new one),
  \<open>AList.delete\<close> is \<open>del\<close>, \<open>keys\<close> the key view.  An image is \<open>None\<close>, or \<open>Some p\<close> for
  the string \<open>p\<close>; \<open>Some []\<close> is the empty string of older documents.
\<close>

record album =
  image_ref :: "pystr option"

record band =
  albums :: "(pystr \<times> album) list"

record catalog =
  bands :: "(pystr \<times> band) list"

definition keys :: "('k \<times> 'v) list \<Rightarrow> 'k list" where
  "keys d = map fst d"

definition empty_data :: catalog where
  "empty_data = \<lparr>bands = []\<rparr>"


text \<open>
  What a file holds, as far as \<open>Image.open\<close> can tell: an image it decodes, or anything
  else.  The number stands for the bytes.
\<close>

datatype content = Picture nat | Other nat

text \<open>
  The inventory file as \<open>load_data\<close> meets it: absent (\<open>FileNotFoundError\<close>), failing to be
  opened or read for another reason, not parsed by \<open>json.load\<close> (\<open>JSONDecodeError\<close>), or
  holding a document of the shape above.
\<close>

datatype inventory_file = NotFound | Unreadable | Corrupt | Document catalog

text \<open>The texts of the message boxes.\<close>

datatype message =
  NoMessage
  | ParseFailed
  | LoadFailed
  | SaveFailed
  | NameEmpty
  | NameTooLong
  | NameForbidden
  | BandExists pystr
  | NoBandSelected
  | AlbumExists
  | BandNotFound pystr
  | DeleteImageFailed
  | NoBandOrAlbumSelected
  | NotValidImage
  | UnsupportedFileType
  | CopyFailed pystr
  | AssociateFailed
  | SelectError
  | ExportFailed
  | ExportComplete
  | ImportFailed
  | ImportComplete nat

datatype exn = KeyError | AttributeError

text \<open>
  \<open>ShowError\<close> is \<open>handle_error\<close> (\<open>debug_messages\<close> is off), \<open>ShowInfo\<close> is
  \<open>messagebox.showinfo\<close>, \<open>Traceback\<close> is an exception that leaves a callback: Tk reports
  it and the application goes on with the state reached.
\<close>

datatype notice = ShowError message | ShowInfo message | Traceback exn

text \<open>
  The application with the part of its environment that the operations read and write:
  the files seen by \<open>os.path.exists\<close>, \<open>Image.open\<close>, \<open>shutil.copy\<close> and \<open>os.remove\<close>,
  the paths on which copying and removing fail, the inventory file and the export file
  with their write permission, and the notices shown so far.  The inventory file and
  the export file are kept apart from the other files.  Widgets and the drawing of
  images are presentation and are left out; of the list boxes only the selection is kept.
\<close>

record app =
  data :: catalog
  selected_band :: "pystr option"
  selected_album :: "pystr option"
  files :: "(pystr \<times> content) list"
  locked :: "pystr list"
  inventory :: inventory_file
  inventory_writable :: bool
  export_file :: "pystr option"
  export_writable :: bool
  notices :: "notice list"

text \<open>Truth value of \<open>None\<close> and of a string, as in \<open>if self.selected_band:\<close>.\<close>

fun truthy :: "pystr option \<Rightarrow> bool" where
  "truthy None = False"
| "truthy (Some v) = (v \<noteq> [])"

definition handle_error :: "message \<Rightarrow> app \<Rightarrow> app" where
  "handle_error m s = s\<lparr>notices := notices s @ [ShowError m]\<rparr>"

definition showinfo :: "message \<Rightarrow> app \<Rightarrow> app" where
  "showinfo m s = s\<lparr>notices := notices s @ [ShowInfo m]\<rparr>"

definition uncaught :: "exn \<Rightarrow> app \<Rightarrow> app" where
  "uncaught e s = s\<lparr>notices := notices s @ [Traceback e]\<rparr>"

definition os_path_exists :: "app \<Rightarrow> pystr \<Rightarrow> bool" where
  "os_path_exists s p \<longleftrightarrow> p \<in> set (keys (files s))"

section \<open>The catalog store\<close>

text \<open>
  \<open>self.data["bands"][band]["albums"][album]["image"] = v\<close>; \<open>None\<close> is the \<open>KeyError\<close> of
  a band or an album that is not there.
\<close>

definition set_image :: "pystr \<Rightarrow> pystr \<Rightarrow> pystr option \<Rightarrow> catalog \<Rightarrow> catalog option" where
  "set_image b a v d =
     (case map_of (bands d) b of
        None \<Rightarrow> None
      | Some bd \<Rightarrow>
          (case map_of (albums bd) a of
             None \<Rightarrow> None
           | Some al \<Rightarrow>
               Some (d\<lparr>bands :=
                 AList.update b (bd\<lparr>albums := AList.update a (al\<lparr>image_ref := v\<rparr>) (albums bd)\<rparr>)
                   (bands d)\<rparr>)))"



definition save_data :: "app \<Rightarrow> app" where
  "save_data s =
     (if inventory_writable s then s\<lparr>inventory := Document (data s)\<rparr>
      else handle_error SaveFailed s)"


section \<open>Selection\<close>

text \<open>
  \<open>refresh_bands\<close> and \<open>refresh_albums\<close> fill the list boxes with the sorted keys and clear
  the selection, so a list box shows the keys of the catalog (\<open>band_listbox\<close>) and of the
  selected band (\<open>album_listbox\<close>).  \<open>select_band_by_name\<close> and \<open>select_album_by_name\<close>
  select an entry of the list box and raise the selection event, which runs the handler
  at once.
\<close>

definition refresh_bands :: "app \<Rightarrow> app" where
  "refresh_bands s = s\<lparr>selected_band := None, selected_album := None\<rparr>"

definition refresh_albums :: "app \<Rightarrow> app" where
  "refresh_albums s = s\<lparr>selected_album := None\<rparr>"

definition on_band_select :: "pystr \<Rightarrow> app \<Rightarrow> app" where
  "on_band_select band_name s = refresh_albums (s\<lparr>selected_band := Some band_name\<rparr>)"

definition on_album_select :: "pystr \<Rightarrow> app \<Rightarrow> app" where
  "on_album_select album_name s =
     (if \<not> truthy (selected_band s) then s
      else if the (selected_band s) \<notin> set (keys (bands (data s)))
      then (handle_error SelectError s)\<lparr>selected_album := None\<rparr>
      else s\<lparr>selected_album := Some album_name\<rparr>)"

definition band_listbox :: "app \<Rightarrow> pystr list" where
  "band_listbox s = sort (keys (bands (data s)))"

definition album_listbox :: "app \<Rightarrow> pystr list" where
  "album_listbox s =
     (if truthy (selected_band s)
      then (case map_of (bands (data s)) (the (selected_band s)) of
              None \<Rightarrow> []
            | Some bd \<Rightarrow> sort (keys (albums bd)))
      else [])"

definition select_band_by_name :: "pystr \<Rightarrow> app \<Rightarrow> app" where
  "select_band_by_name band_name s =
     (if band_name \<in> set (band_listbox s) then on_band_select band_name s else s)"

definition select_album_by_name :: "pystr \<Rightarrow> app \<Rightarrow> app" where
  "select_album_by_name album_name s =
     (if album_name \<in> set (album_listbox s) then on_album_select album_name s else s)"

section \<open>Catalog operations\<close>

text \<open>\<open>validate_input\<close> returns the pair of the verdict and the message.\<close>

definition validate_input :: "pystr \<Rightarrow> bool \<times> message" where
  "validate_input name =
     (if name = [] \<or> length (strip name) = 0 then (False, NameEmpty)
      else if length name > 100 then (False, NameTooLong)
      else if re_search_forbidden name then (False, NameForbidden)
      else (True, NoMessage))"

text \<open>
  The dialog, driven by what the user does in it: each OK is validated and an invalid
  entry keeps the dialog open; Cancel closes it with the result \<open>None\<close>.  When the window
  is closed otherwise, \<open>dialog.result\<close> was never assigned and reading it raises
  \<open>AttributeError\<close>.
\<close>

datatype dialog_event = PressOk pystr | PressCancel

fun simple_input_dialog :: "dialog_event list \<Rightarrow> app \<Rightarrow> app \<times> (exn + pystr option)" where
  "simple_input_dialog [] s = (s, Inl AttributeError)"
| "simple_input_dialog (PressCancel # es) s = (s, Inr None)"
| "simple_input_dialog (PressOk entry # es) s =
     (case validate_input entry of
        (True, _) \<Rightarrow> (s, Inr (Some entry))
      | (False, error_msg) \<Rightarrow> simple_input_dialog es (handle_error error_msg s))"

definition add_band :: "dialog_event list \<Rightarrow> app \<Rightarrow> app" where
  "add_band es s =
     (case simple_input_dialog es s of
        (s1, Inl e) \<Rightarrow> uncaught e s1
      | (s1, Inr None) \<Rightarrow> s1
      | (s1, Inr (Some entry)) \<Rightarrow>
          if entry = [] then s1
          else
            let band_name = strip entry
            in if band_name \<in> set (keys (bands (data s1)))
               then handle_error (BandExists band_name) s1
               else select_band_by_name band_name (refresh_bands (save_data
                 (s1\<lparr>data := (data s1)\<lparr>bands :=
                    AList.update band_name \<lparr>albums = []\<rparr> (bands (data s1))\<rparr>\<rparr>))))"

text \<open>\<open>confirm\<close> is the answer to \<open>messagebox.askyesno\<close>.\<close>

definition delete_band :: "bool \<Rightarrow> app \<Rightarrow> app" where
  "delete_band confirm s =
     (case selected_band s of
        None \<Rightarrow> s
      | Some b \<Rightarrow>
          if b = [] \<or> \<not> confirm then s
          else if b \<notin> set (keys (bands (data s))) then uncaught KeyError s
          else refresh_bands (save_data
                 (s\<lparr>data := (data s)\<lparr>bands := AList.delete b (bands (data s))\<rparr>\<rparr>)))"

definition add_album :: "dialog_event list \<Rightarrow> app \<Rightarrow> app" where
  "add_album es s =
     (if \<not> truthy (selected_band s) then handle_error NoBandSelected s
      else
        (case simple_input_dialog es s of
           (s1, Inl e) \<Rightarrow> uncaught e s1
         | (s1, Inr None) \<Rightarrow> s1
         | (s1, Inr (Some entry)) \<Rightarrow>
             if entry = [] then s1
             else
               let album_name = strip entry; (valid, error_msg) = validate_input album_name
               in if \<not> valid then handle_error error_msg s1
                  else
                    (case map_of (bands (data s1)) (the (selected_band s1)) of
                       None \<Rightarrow> uncaught KeyError s1
                     | Some bd \<Rightarrow>
                         if album_name \<in> set (keys (albums bd))
                         then handle_error AlbumExists s1
                         else select_album_by_name album_name (refresh_albums (save_data
                           (s1\<lparr>data := (data s1)\<lparr>bands :=
                              AList.update (the (selected_band s1))
                                (bd\<lparr>albums := AList.update album_name \<lparr>image_ref = None\<rparr> (albums bd)\<rparr>)
                                (bands (data s1))\<rparr>\<rparr>))))))"

text \<open>
  \<open>os.remove\<close> inside its \<open>try\<close>: a failure is reported and the file stays.
\<close>

definition try_remove :: "pystr \<Rightarrow> app \<Rightarrow> app" where
  "try_remove image_path s =
     (if image_path \<in> set (locked s) then handle_error DeleteImageFailed s
      else s\<lparr>files := AList.delete image_path (files s)\<rparr>)"

text \<open>
  The part that \<open>delete_album\<close> and \<open>remove_image\<close> share: the file of the image reference
  of the album, when the reference is a non-empty string and the file exists, is removed.
\<close>

definition remove_asset :: "pystr \<Rightarrow> band \<Rightarrow> pystr \<Rightarrow> app \<Rightarrow> app" where
  "remove_asset BASE_DIR bd a s =
     (let image_rel_path = (case map_of (albums bd) a of None \<Rightarrow> None | Some album_data \<Rightarrow> image_ref album_data)
      in if truthy image_rel_path
         then
           let image_path = os_path_join BASE_DIR (the image_rel_path)
           in if os_path_exists s image_path then try_remove image_path s else s
         else s)"

definition delete_album :: "pystr \<Rightarrow> bool \<Rightarrow> app \<Rightarrow> app" where
  "delete_album BASE_DIR confirm s =
     (if truthy (selected_band s) \<and> truthy (selected_album s) then
        (case map_of (bands (data s)) (the (selected_band s)) of
           None \<Rightarrow> handle_error (BandNotFound (the (selected_band s))) s
         | Some bd \<Rightarrow>
             if \<not> confirm then s
             else
               let s1 = remove_asset BASE_DIR bd (the (selected_album s)) s
               in if the (selected_album s) \<notin> set (keys (albums bd)) then uncaught KeyError s1
                  else refresh_albums (save_data
                    (s1\<lparr>data := (data s1)\<lparr>bands :=
                       AList.update (the (selected_band s))
                         (bd\<lparr>albums := AList.delete (the (selected_album s)) (albums bd)\<rparr>)
                         (bands (data s1))\<rparr>\<rparr>)))
      else s)"

definition remove_image :: "pystr \<Rightarrow> app \<Rightarrow> app" where
  "remove_image BASE_DIR s =
     (if truthy (selected_band s) \<and> truthy (selected_album s) then
        (case map_of (bands (data s)) (the (selected_band s)) of
           None \<Rightarrow> uncaught KeyError s
         | Some bd \<Rightarrow>
             let s1 = remove_asset BASE_DIR bd (the (selected_album s)) s
             in (case set_image (the (selected_band s)) (the (selected_album s)) None (data s1) of
                   None \<Rightarrow> uncaught KeyError s1
                 | Some d \<Rightarrow> save_data (s1\<lparr>data := d\<rparr>)))
      else s)"

section \<open>Image assets\<close>

text \<open>
  The loop of \<open>associate_image\<close> that looks for a free destination: while the path exists,
  the next candidate carries the counter.  \<open>candidate\<close> names the path with the counter
  \<open>k\<close>, for the statements about the loop.
\<close>

definition candidate :: "pystr \<Rightarrow> pystr \<Rightarrow> pystr \<Rightarrow> nat \<Rightarrow> pystr" where
  "candidate dir sanitized_album_name ext counter =
     os_path_join dir (sanitized_album_name @ [95] @ str_nat counter @ ext)"

function find_dest :: "(pystr \<times> content) list \<Rightarrow> pystr \<Rightarrow> pystr \<Rightarrow> pystr \<Rightarrow> pystr \<Rightarrow> nat \<Rightarrow> pystr" where
  "find_dest fs dir sanitized_album_name ext dest_path counter =
     (if dest_path \<in> set (keys fs)
      then find_dest fs dir sanitized_album_name ext
             (os_path_join dir (sanitized_album_name @ [95] @ str_nat counter @ ext)) (counter + 1)
      else dest_path)"
  by pat_completeness auto

text \<open>\<open>shutil.copy\<close>; \<open>None\<close> when it raises.\<close>

definition shutil_copy :: "pystr \<Rightarrow> pystr \<Rightarrow> app \<Rightarrow> app option" where
  "shutil_copy src dst s =
     (case map_of (files s) src of
        None \<Rightarrow> None
      | Some c \<Rightarrow> if dst \<in> set (locked s) then None else Some (s\<lparr>files := AList.update dst c (files s)\<rparr>))"

text \<open>
  \<open>img_path\<close> is the answer of the file dialog, empty when it was cancelled.
  \<open>Image.open\<close> succeeds on a file that exists and holds a picture.
\<close>

definition associate_image :: "pystr \<Rightarrow> pystr \<Rightarrow> app \<Rightarrow> app" where
  "associate_image BASE_DIR img_path s =
     (if \<not> (truthy (selected_band s) \<and> truthy (selected_album s))
      then handle_error NoBandOrAlbumSelected s
      else if img_path = [] then s
      else
        (case map_of (files s) img_path of
           Some (Picture _) \<Rightarrow>
             let sanitized_album_name = replace_space (re_sub_forbidden (the (selected_album s)));
                 ext = lower (snd (os_path_splitext img_path))
             in if ext \<notin> set [py ''.jpg'', py ''.jpeg'', py ''.png'']
                then handle_error UnsupportedFileType s
                else
                  let dest_path = find_dest (files s) (IMAGES_DIR BASE_DIR) sanitized_album_name ext
                        (os_path_join (IMAGES_DIR BASE_DIR) (sanitized_album_name @ ext)) 1
                  in (case shutil_copy img_path dest_path s of
                        None \<Rightarrow> handle_error (CopyFailed dest_path) s
                      | Some s1 \<Rightarrow>
                          (case set_image (the (selected_band s)) (the (selected_album s))
                                  (Some (os_path_relpath dest_path BASE_DIR)) (data s1) of
                             None \<Rightarrow> handle_error AssociateFailed s1
                           | Some d \<Rightarrow> save_data (s1\<lparr>data := d\<rparr>)))
         | _ \<Rightarrow> handle_error NotValidImage s))"

section \<open>Text export and import\<close>



text \<open>The body of the loop of \<open>import_collection\<close>, on the catalog and \<open>added_count\<close>.\<close>

fun import_line :: "pystr \<Rightarrow> catalog \<times> nat \<Rightarrow> catalog \<times> nat" where
  "import_line raw (d, added_count) =
     (let line = strip raw
      in if line = [] then (d, added_count)
         else if sublist (py '' - '') line then
           (let parts = str_split (py '' - '') line
            in if length parts = 2 then
                 (let band_name = strip (parts ! 0); album_name = strip (parts ! 1)
                  in if band_name \<noteq> [] \<and> album_name \<noteq> [] then
                       (let d1 = (if band_name \<notin> set (keys (bands d))
                                  then d\<lparr>bands := AList.update band_name \<lparr>albums = []\<rparr> (bands d)\<rparr>
                                  else d)
                        in case map_of (bands d1) band_name of
                             None \<Rightarrow> (d1, added_count)
                           | Some bd \<Rightarrow>
                               if album_name \<notin> set (keys (albums bd))
                               then (d1\<lparr>bands := AList.update band_name
                                        (bd\<lparr>albums := AList.update album_name \<lparr>image_ref = None\<rparr> (albums bd)\<rparr>)
                                        (bands d1)\<rparr>,
                                     added_count + 1)
                               else (d1, added_count))
                     else (d, added_count))
               else (d, added_count))
         else (d, added_count))"

fun import_lines :: "pystr list \<Rightarrow> catalog \<times> nat \<Rightarrow> catalog \<times> nat" where
  "import_lines [] acc = acc"
| "import_lines (line # lines) acc = import_lines lines (import_line line acc)"

text \<open>
  What the file dialog and the reading of the chosen file give: nothing chosen, a file
  that cannot be opened or decoded, or the text of the file.
\<close>

datatype chosen_file = Cancelled | ReadFailed | Contents pystr

definition import_collection :: "chosen_file \<Rightarrow> app \<Rightarrow> app" where
  "import_collection chosen s =
     (case chosen of
        Cancelled \<Rightarrow> s
      | ReadFailed \<Rightarrow> handle_error ImportFailed s
      | Contents text \<Rightarrow>
          (case import_lines (readlines text) (data s, 0) of
             (d, added_count) \<Rightarrow>
               showinfo (ImportComplete added_count) (refresh_bands (save_data (s\<lparr>data := d\<rparr>)))))"

section \<open>Notions for the statements\<close>

text \<open>
  The album stored under a band and an album name, the number of album entries of a
  catalog, and the list of its (band, album) pairs.
\<close>

definition album_of :: "catalog \<Rightarrow> pystr \<Rightarrow> pystr \<Rightarrow> album option" where
  "album_of d b a = (case map_of (bands d) b of None \<Rightarrow> None | Some bd \<Rightarrow> map_of (albums bd) a)"



text \<open>
  The valid lines of an import file in the words of the specification: the trimmed line
  contains the separator and splits into exactly two parts, both non-empty when trimmed;
  the result is the pair of the trimmed parts.
\<close>

definition parse_line_spec :: "pystr \<Rightarrow> (pystr \<times> pystr) option" where
  "parse_line_spec raw =
     (let line = strip raw; parts = str_split (py '' - '') line
      in if sublist (py '' - '') line \<and> length parts = 2 \<and> strip (parts ! 0) \<noteq> [] \<and> strip (parts ! 1) \<noteq> []
         then Some (strip (parts ! 0), strip (parts ! 1))
         else None)"

text \<open>A state of the application to evaluate the operations on.\<close>

definition example_app :: app where
  "example_app =
     \<lparr>data = empty_data, selected_band = None, selected_album = None,
      files = [(py ''/home/u/cover.PNG'', Picture 7), (py ''/home/u/notes.png'', Other 3)],
      locked = [], inventory = NotFound, inventory_writable = True,
      export_file = None, export_writable = True, notices = []\<rparr>"

definition queen_app :: app where
  "queen_app =
     \<lparr>data = \<lparr>bands = [(py ''Queen'', \<lparr>albums = [(py ''Jazz'', \<lparr>image_ref = Some (py ''images/Jazz.png'')\<rparr>)]\<rparr>)]\<rparr>,
      selected_band = Some (py ''Queen''), selected_album = Some (py ''Jazz''),
      files = [(py ''/app/images/Jazz.png'', Picture 1), (py ''/home/u/notes.png'', Other 3),
               (py ''/home/u/anim.gif'', Picture 9)],
      locked = [], inventory = NotFound, inventory_writable = True,
      export_file = None, export_writable = True, notices = []\<rparr>"

text \<open>
  The entries of a dialog are all rejected by the validation; and a state that differs
  from another in the notices at most.
\<close>

definition invalid_entries :: "dialog_event list \<Rightarrow> bool" where
  "invalid_entries es =
     list_all (\<lambda>e. case e of PressOk entry \<Rightarrow> \<not> fst (validate_input entry) | PressCancel \<Rightarrow> True) es"

definition unchanged :: "app \<Rightarrow> app \<Rightarrow> bool" where
  "unchanged s s' \<longleftrightarrow>
     data s' = data s \<and> files s' = files s \<and> inventory s' = inventory s \<and>
     export_file s' = export_file s \<and> selected_band s' = selected_band s \<and>
     selected_album s' = selected_album s \<and> locked s' = locked s \<and>
     inventory_writable s' = inventory_writable s \<and> export_writable s' = export_writable s"




text \<open>
  The order of the exported lines: by band, and by album within a band.  \<open>export_pairs\<close>
  is the list of pairs behind the lines of \<open>export_lines\<close>.
\<close>

definition band_album_less :: "pystr \<times> pystr \<Rightarrow> pystr \<times> pystr \<Rightarrow> bool" where
  "band_album_less p q \<longleftrightarrow> fst p < fst q \<or> (fst p = fst q \<and> snd p < snd q)"


text \<open>
  Names that survive the export format: not empty, no white space at either end, no line
  break, and the separator does not occur in them; a band name, moreover, does not end
  in a blank and a hyphen, which with the blank of the separator would read as a
  separator.
\<close>

definition exportable_name :: "pystr \<Rightarrow> bool" where
  "exportable_name n \<longleftrightarrow>
     n \<noteq> [] \<and> \<not> isspace (hd n) \<and> \<not> isspace (last n) \<and> 10 \<notin> set n \<and> 13 \<notin> set n \<and>
     \<not> sublist (py '' - '') n"


text \<open>
  The catalog reached from the empty one by adding the band \<open>AC - DC\<close> and its album
  \<open>Back in Black\<close> through the dialogs.
\<close>

definition acdc_app :: app where
  "acdc_app = add_album [PressOk (py ''Back in Black'')] (add_band [PressOk (py ''AC - DC'')] example_app)"

text \<open>
  Names for parts of \<open>associate_image\<close>: the sanitized album name, the lowered extension
  of the chosen file, the test on it, and the destination that the loop settles on.
\<close>

definition sanitize :: "pystr \<Rightarrow> pystr" where
  "sanitize album_name = replace_space (re_sub_forbidden album_name)"

definition image_ext :: "pystr \<Rightarrow> pystr" where
  "image_ext img_path = lower (snd (os_path_splitext img_path))"

definition allowed_ext :: "pystr \<Rightarrow> bool" where
  "allowed_ext ext \<longleftrightarrow> ext \<in> set [py ''.jpg'', py ''.jpeg'', py ''.png'']"

definition destination :: "pystr \<Rightarrow> (pystr \<times> content) list \<Rightarrow> pystr \<Rightarrow> pystr \<Rightarrow> pystr" where
  "destination BASE_DIR fs san ext =
     find_dest fs (IMAGES_DIR BASE_DIR) san ext (os_path_join (IMAGES_DIR BASE_DIR) (san @ ext)) 1"

section \<open>The search for a free destination terminates\<close>

lemma str_nat_nonempty: "str_nat n \<noteq> []"
  by (subst str_nat.simps) simp

lemma str_nat_inj: "str_nat n = str_nat m \<Longrightarrow> n = m"
proof (induction n arbitrary: m rule: str_nat.induct)
  case (1 n)
  show ?case
  proof (cases "n < 10")
    case True
    show ?thesis
    proof (cases "m < 10")
      case True
      with \<open>n < 10\<close> "1.prems" show ?thesis
        by (simp add: str_nat.simps[of n] str_nat.simps[of m])
    next
      case False
      with \<open>n < 10\<close> "1.prems" show ?thesis
        using str_nat_nonempty[of "m div 10"]
        by (simp add: str_nat.simps[of n] str_nat.simps[of m])
    qed
  next
    case False
    show ?thesis
    proof (cases "m < 10")
      case True
      with \<open>\<not> n < 10\<close> "1.prems" show ?thesis
        using str_nat_nonempty[of "n div 10"]
        by (simp add: str_nat.simps[of n] str_nat.simps[of m])
    next
      case mf: False
      from False mf "1.prems"
      have eq: "str_nat (n div 10) = str_nat (m div 10)" and md: "n mod 10 = m mod 10"
        by (simp_all add: str_nat.simps[of n] str_nat.simps[of m])
      from "1.IH"[OF False eq] have "n div 10 = m div 10" .
      with md show ?thesis
        by (metis div_mult_mod_eq)
    qed
  qed
qed

lemma os_path_join_inj_suffix:
  "os_path_join dir (san @ x) = os_path_join dir (san @ y) \<Longrightarrow>
     x \<noteq> [] \<Longrightarrow> y \<noteq> [] \<Longrightarrow> hd x = hd y \<Longrightarrow> x = y"
  by (cases x; cases y; cases san) (auto simp: os_path_join_def split: if_splits)

lemma candidate_inj: "candidate dir san ext k = candidate dir san ext j \<Longrightarrow> k = j"
proof -
  assume "candidate dir san ext k = candidate dir san ext j"
  then have "[95] @ str_nat k @ ext = [95] @ str_nat j @ ext"
    unfolding candidate_def by (rule os_path_join_inj_suffix) simp_all
  then show "k = j" by (simp add: str_nat_inj)
qed

lemma finite_candidates: "finite {k. candidate dir san ext k \<in> set (keys fs)}"
proof -
  have "inj (candidate dir san ext)" by (rule injI) (rule candidate_inj)
  then have "finite (candidate dir san ext -` set (keys fs))"
    by (intro finite_vimageI) simp_all
  then show ?thesis by (simp add: vimage_def)
qed

lemma candidates_from:
  "{k. c \<le> k \<and> candidate dir san ext k \<in> set (keys fs)} =
     (if candidate dir san ext c \<in> set (keys fs) then {c} else {}) \<union>
     {k. Suc c \<le> k \<and> candidate dir san ext k \<in> set (keys fs)}"
  by (auto simp: Suc_le_eq le_less)

termination find_dest
proof (relation "measure (\<lambda>(fs, dir, san, ext, dest, counter).
          card {k. counter \<le> k \<and> candidate dir san ext k \<in> set (keys fs)} +
          (if dest \<in> set (keys fs) then 1 else 0))", goal_cases)
  case 1
  show ?case by simp
next
  case (2 fs dir san ext dest counter)
  let ?P = "\<lambda>k. candidate dir san ext k \<in> set (keys fs)"
  have fin: "finite {k. Suc counter \<le> k \<and> ?P k}"
    by (rule finite_subset[OF _ finite_candidates[of dir san ext fs]]) auto
  have "{k. counter \<le> k \<and> ?P k} =
          (if ?P counter then {counter} else {}) \<union> {k. Suc counter \<le> k \<and> ?P k}"
    by (rule candidates_from)
  then have "card {k. counter \<le> k \<and> ?P k} =
          (if ?P counter then 1 else 0) + card {k. Suc counter \<le> k \<and> ?P k}"
    using fin by auto
  with 2 show ?case by (simp add: candidate_def)
qed

declare find_dest.simps [simp del]

section \<open>Name validation\<close>

lemma strip_Nil_iff: "strip s = [] \<longleftrightarrow> list_all isspace s"
proof
  assume "strip s = []"
  then have "\<forall>c \<in> set (dropWhile isspace s). isspace c"
    by (simp add: strip_def)
  then have "dropWhile isspace s = []"
    using hd_dropWhile[of isspace s] hd_in_set[of "dropWhile isspace s"] by blast
  then show "list_all isspace s"
    by (simp add: list_all_iff)
next
  assume "list_all isspace s"
  then have e: "dropWhile isspace s = []"
    by (simp add: list_all_iff)
  show "strip s = []"
    unfolding strip_def e by simp
qed

text \<open>
  Claim C6.  \<open>validate_input\<close> rejects a name exactly when it is empty, consists of white
  space only, is longer than 100 characters, or contains one of the characters
  \<open><>:"/\\|?*\<close>.  So every name that is not empty and not white space only, has at most 100
  characters and none of these characters is accepted; a clean name of 100 characters is
  one of them (see the evaluation after the theorem).
\<close>

theorem validate_input_rejects_iff:
  "\<not> fst (validate_input name) \<longleftrightarrow>
     name = [] \<or> list_all isspace name \<or> length name > 100 \<or> list_ex forbidden name"
  by (auto simp: validate_input_def strip_Nil_iff re_search_forbidden_def)

theorem validate_input_rejects_iff_witness:
  "fst (validate_input (replicate 100 120)) \<and>
   \<not> fst (validate_input (replicate 101 120)) \<and>
   \<not> fst (validate_input []) \<and>
   \<not> fst (validate_input (py ''   '')) \<and>
   \<not> fst (validate_input (py ''AC/DC''))"
  using validate_input_rejects_iff[of "replicate 100 120"]
    validate_input_rejects_iff[of "replicate 101 120"]
    validate_input_rejects_iff[of "[]"]
    validate_input_rejects_iff[of "py ''   ''"]
    validate_input_rejects_iff[of "py ''AC/DC''"]
  by (simp add: isspace_def forbidden_def list_all_iff list_ex_iff)

section \<open>Text import\<close>

lemma in_keys_iff: "k \<in> set (keys al) \<longleftrightarrow> map_of al k \<noteq> None"
  by (simp add: keys_def map_of_eq_None_iff)


lemma import_line_album_of:
  "album_of (fst (import_line raw (d, n))) b a =
     (if parse_line_spec raw = Some (b, a) \<and> album_of d b a = None
      then Some \<lparr>image_ref = None\<rparr> else album_of d b a)"
  by (auto simp: parse_line_spec_def Let_def album_of_def in_keys_iff update_conv' split: option.splits if_splits)



lemma import_line_untouched:
  "album_of d b a = Some al \<Longrightarrow> album_of (fst (import_line raw (d, n))) b a = Some al"
  by (simp add: import_line_album_of del: import_line.simps)





declare import_line.simps [simp del]

lemma import_lines_album_of:
  "album_of (fst (import_lines ls (d, n))) b a =
     (if album_of d b a = None \<and> Some (b, a) \<in> parse_line_spec ` set ls
      then Some \<lparr>image_ref = None\<rparr> else album_of d b a)"
proof (induction ls arbitrary: d n)
  case Nil
  show ?case by simp
next
  case (Cons l ls)
  obtain d1 n1 where step: "import_line l (d, n) = (d1, n1)" by (cases "import_line l (d, n)")
  have d1: "album_of d1 b a =
     (if parse_line_spec l = Some (b, a) \<and> album_of d b a = None
      then Some \<lparr>image_ref = None\<rparr> else album_of d b a)"
    using import_line_album_of[of l d n b a] step by simp
  show ?case
    using Cons.IH[of d1 n1] by (auto simp: step d1)
qed




lemma import_collection_Contents:
  "import_collection (Contents text) s =
     showinfo (ImportComplete (snd (import_lines (readlines text) (data s, 0))))
       (refresh_bands (save_data (s\<lparr>data := fst (import_lines (readlines text) (data s, 0))\<rparr>)))"
  by (simp add: import_collection_def split: prod.splits)

lemma data_after_import:
  "data (import_collection (Contents text) s) = fst (import_lines (readlines text) (data s, 0))"
  by (simp add: import_collection_Contents showinfo_def refresh_bands_def save_data_def handle_error_def)



section \<open>Deleting a band\<close>

lemma delete_band_files: "files (delete_band confirm s) = files s"
  by (simp add: delete_band_def uncaught_def refresh_bands_def save_data_def handle_error_def split: option.splits)

text \<open>
  Claim C1.  \<open>delete_band\<close> removes the band with its albums, but it removes no file:
  with the band Queen selected, whose album Jazz refers to \<open>images/Jazz.png\<close>, the catalog
  is empty afterwards and the file is still there, whereas \<open>delete_album\<close> on the same
  state removes the file.
\<close>

theorem delete_band_keeps_asset:
  "data (delete_band True queen_app) = empty_data \<and>
   os_path_exists (delete_band True queen_app) (os_path_join (py ''/app'') (py ''images/Jazz.png'')) \<and>
   \<not> os_path_exists (delete_album (py ''/app'') True queen_app) (os_path_join (py ''/app'') (py ''images/Jazz.png''))"
  by (simp add: queen_app_def delete_band_def delete_album_def remove_asset_def try_remove_def
        os_path_exists_def os_path_join_def suffix_to_prefix keys_def refresh_bands_def refresh_albums_def save_data_def empty_data_def)

section \<open>Validation failures\<close>

lemma unchanged_refl [simp]: "unchanged s s"
  by (simp add: unchanged_def)

lemma unchanged_handle_error [simp]: "unchanged s (handle_error m s') = unchanged s s'"
  by (simp add: unchanged_def handle_error_def)

lemma unchanged_uncaught [simp]: "unchanged s (uncaught e s') = unchanged s s'"
  by (simp add: unchanged_def uncaught_def)

lemma dialog_invalid:
  "invalid_entries es \<Longrightarrow> unchanged s0 s \<Longrightarrow>
     snd (simple_input_dialog es s) \<noteq> Inr (Some entry) \<and>
     unchanged s0 (fst (simple_input_dialog es s))"
proof (induction es arbitrary: s)
  case Nil
  then show ?case by simp
next
  case (Cons e es)
  show ?case
  proof (cases e)
    case PressCancel
    with Cons.prems show ?thesis by simp
  next
    case (PressOk v)
    with Cons.prems have inv: "\<not> fst (validate_input v)" and rest: "invalid_entries es"
      by (simp_all add: invalid_entries_def)
    obtain m where v: "validate_input v = (False, m)"
      using inv by (cases "validate_input v") auto
    show ?thesis
      using Cons.IH[OF rest, of "handle_error m s"] Cons.prems(2) PressOk v
      by simp
  qed
qed

lemma add_band_invalid:
  assumes "invalid_entries es"
  shows "unchanged s (add_band es s)"
proof -
  obtain s1 r where d: "simple_input_dialog es s = (s1, r)" by (cases "simple_input_dialog es s")
  from dialog_invalid[OF assms unchanged_refl, of s] d
  have r: "\<And>entry. r \<noteq> Inr (Some entry)" and s1: "unchanged s s1"
    by auto
  show ?thesis
    using r s1 by (auto simp: add_band_def d split: sum.splits option.splits)
qed

lemma add_album_invalid:
  assumes "invalid_entries es"
  shows "unchanged s (add_album es s)"
proof -
  obtain s1 r where d: "simple_input_dialog es s = (s1, r)" by (cases "simple_input_dialog es s")
  from dialog_invalid[OF assms unchanged_refl, of s] d
  have r: "\<And>entry. r \<noteq> Inr (Some entry)" and s1: "unchanged s s1"
    by auto
  show ?thesis
    using r s1 by (auto simp: add_album_def d split: sum.splits option.splits)
qed

lemma associate_image_not_image:
  "(\<forall>n. map_of (files s) img_path \<noteq> Some (Picture n)) \<Longrightarrow> unchanged s (associate_image BASE_DIR img_path s)"
  by (auto simp: associate_image_def split: option.splits content.splits)

lemma associate_image_bad_ext:
  "lower (snd (os_path_splitext img_path)) \<notin> {py ''.jpg'', py ''.jpeg'', py ''.png''} \<Longrightarrow>
     unchanged s (associate_image BASE_DIR img_path s)"
  by (auto simp: associate_image_def Let_def split: option.splits content.splits)

text \<open>
  Claim C7.  When every entry of the dialog is rejected by the validation, \<open>add_band\<close> and
  \<open>add_album\<close> leave the catalog, the selection, the files and the inventory as they
  were; so does \<open>associate_image\<close> when the chosen file is not a picture that
  \<open>Image.open\<close> decodes, and when its extension is none of \<open>.jpg\<close>, \<open>.jpeg\<close>, \<open>.png\<close>.
  Only notices are added.
\<close>

theorem validation_failure_changes_nothing:
  "(invalid_entries es \<longrightarrow> unchanged s (add_band es s)) \<and>
   (invalid_entries es \<longrightarrow> unchanged s (add_album es s)) \<and>
   ((\<forall>n. map_of (files s) img_path \<noteq> Some (Picture n)) \<longrightarrow>
      unchanged s (associate_image BASE_DIR img_path s)) \<and>
   (lower (snd (os_path_splitext img_path)) \<notin> {py ''.jpg'', py ''.jpeg'', py ''.png''} \<longrightarrow>
      unchanged s (associate_image BASE_DIR img_path s))"
  using add_band_invalid add_album_invalid associate_image_not_image associate_image_bad_ext
  by blast

theorem validation_failure_changes_nothing_witness:
  "invalid_entries [PressOk (py ''AC/DC''), PressOk [], PressCancel] \<and>
   unchanged queen_app (add_band [PressOk (py ''AC/DC''), PressOk [], PressCancel] queen_app) \<and>
   unchanged queen_app (add_album [PressOk (py ''AC/DC''), PressOk [], PressCancel] queen_app) \<and>
   map_of (files queen_app) (py ''/home/u/notes.png'') = Some (Other 3) \<and>
   unchanged queen_app (associate_image (py ''/app'') (py ''/home/u/notes.png'') queen_app) \<and>
   lower (snd (os_path_splitext (py ''/home/u/anim.gif''))) = py ''.gif'' \<and>
   unchanged queen_app (associate_image (py ''/app'') (py ''/home/u/anim.gif'') queen_app)"
proof -
  have inv: "invalid_entries [PressOk (py ''AC/DC''), PressOk [], PressCancel]"
    by (simp add: invalid_entries_def validate_input_def re_search_forbidden_def forbidden_def
          strip_def isspace_def)
  have nts: "map_of (files queen_app) (py ''/home/u/notes.png'') = Some (Other 3)"
    by (simp add: queen_app_def)
  have gif: "lower (snd (os_path_splitext (py ''/home/u/anim.gif''))) = py ''.gif''"
    by (simp add: os_path_splitext_def rfind_def lower_def Let_def)
  show ?thesis
    using inv nts gif
      validation_failure_changes_nothing[of "[PressOk (py ''AC/DC''), PressOk [], PressCancel]"
        queen_app "py ''/home/u/notes.png''" "py ''/app''"]
      validation_failure_changes_nothing[of "[PressOk (py ''AC/DC''), PressOk [], PressCancel]"
        queen_app "py ''/home/u/anim.gif''" "py ''/app''"]
    by simp
qed


section \<open>Loading the catalog\<close>

lemma set_image_album_of:
  "set_image b a v d = Some d' \<Longrightarrow>
     album_of d' b' a' =
       (if b' = b \<and> a' = a then map_option (\<lambda>al. al\<lparr>image_ref := v\<rparr>) (album_of d b a)
        else album_of d b' a')"
  by (auto simp: set_image_def album_of_def update_conv' split: option.splits if_splits)

lemma set_image_defined: "album_of d b a = Some al \<Longrightarrow> \<exists>d'. set_image b a v d = Some d'"
  by (auto simp: set_image_def album_of_def split: option.splits)











section \<open>Text export\<close>


lemma band_album_less_Pair [simp]:
  "band_album_less (b, a) (b', a') \<longleftrightarrow> b < b' \<or> (b = b' \<and> a < a')"
  by (simp add: band_album_less_def)


















section \<open>Lines of the export format\<close>

lemma strip_id: "n \<noteq> [] \<Longrightarrow> \<not> isspace (hd n) \<Longrightarrow> \<not> isspace (last n) \<Longrightarrow> strip n = n"
proof -
  assume n: "n \<noteq> []" and h: "\<not> isspace (hd n)" and l: "\<not> isspace (last n)"
  have 1: "dropWhile isspace n = n"
    using h by (simp add: dropWhile_eq_self_iff)
  have 2: "dropWhile isspace (rev n) = rev n"
    using n l by (simp add: dropWhile_eq_self_iff hd_rev)
  show ?thesis by (simp add: strip_def 1 2)
qed

lemma strip_append_space: "list_all isspace w \<Longrightarrow> strip (s @ w) = strip s"
proof (cases "list_all isspace s")
  case True
  assume "list_all isspace w"
  with True have "list_all isspace (s @ w)" by simp
  then show ?thesis using True by (simp only: strip_Nil_iff[THEN iffD2])
next
  case False
  assume w: "list_all isspace w"
  from False obtain x where x: "x \<in> set s" "\<not> isspace x"
    by (auto simp: list_all_iff)
  have 1: "dropWhile isspace (s @ w) = dropWhile isspace s @ w"
    using x by (rule dropWhile_append1)
  have 2: "dropWhile isspace (rev w @ t) = dropWhile isspace t" for t
    using w by (intro dropWhile_append2) (simp add: list_all_iff)
  show ?thesis
    by (simp add: strip_def 1 2)
qed

lemma py_split_no_match: "\<not> sublist sep s \<Longrightarrow> py_split sep cur s = [rev cur @ s]"
proof (induction s arbitrary: cur)
  case Nil
  show ?case by simp
next
  case (Cons c cs)
  from Cons.prems have np: "\<not> prefix sep (c # cs)" and ns: "\<not> sublist sep cs"
    by (auto simp: sublist_Cons_right)
  show ?case
    using np Cons.IH[OF ns, of "c # cur"] by simp
qed

lemma py_split_first:
  assumes "sep \<noteq> []" and "\<And>i. i < length b \<Longrightarrow> \<not> prefix sep (drop i (b @ sep @ a))"
  shows "py_split sep cur (b @ sep @ a) = (rev cur @ b) # py_split sep [] a"
  using assms(2)
proof (induction b arbitrary: cur)
  case Nil
  obtain c cs where c: "sep @ a = c # cs"
    using assms(1) by (cases sep) auto
  have "py_split sep cur (c # cs) = rev cur # py_split sep [] (drop (length sep) (c # cs))"
    by (subst py_split.simps(2)) (simp add: c[symmetric] assms(1))
  then show ?case
    by (simp add: c[symmetric])
next
  case (Cons x b)
  have np: "\<not> prefix sep (x # b @ sep @ a)"
    using Cons.prems[of 0] by simp
  have later: "\<not> prefix sep (drop i (b @ sep @ a))" if "i < length b" for i
    using Cons.prems[of "Suc i"] that by simp
  show ?case
    using np Cons.IH[OF later, of "x # cur"] by simp
qed

lemma no_early_separator:
  assumes "\<not> sublist (py '' - '') b" and "\<not> suffix (py '' -'') b" and "i < length b"
  shows "\<not> prefix (py '' - '') (drop i (b @ py '' - '' @ a))"
proof
  assume p: "prefix (py '' - '') (drop i (b @ py '' - '' @ a))"
  define t where "t = drop i b"
  have suf: "suffix t b" unfolding t_def by (rule suffix_drop)
  have tne: "t \<noteq> []" using assms(3) by (simp add: t_def)
  have p': "prefix [32, 45, 32] (t @ [32, 45, 32] @ a)"
    using p assms(3) by (simp add: t_def)
  show False
  proof (cases t)
    case Nil
    with tne show False by simp
  next
    case (Cons x t1)
    show False
    proof (cases t1)
      case Nil
      with Cons p' show False by simp
    next
      case (Cons y t2)
      show False
      proof (cases t2)
        case Nil
        with Cons \<open>t = x # t1\<close> p' have "t = [32, 45]" by simp
        with suf assms(2) show False by simp
      next
        case (Cons z t3)
        with \<open>t1 = y # t2\<close> \<open>t = x # t1\<close> p' have "prefix [32, 45, 32] t" by simp
        then have "sublist [32, 45, 32] t" by (rule prefix_imp_sublist)
        then have "sublist [32, 45, 32] b"
          using suf by (meson sublist_order.order.trans suffix_imp_sublist)
        with assms(1) show False by simp
      qed
    qed
  qed
qed

lemma str_split_line:
  assumes "\<not> sublist (py '' - '') b" and "\<not> suffix (py '' -'') b" and "\<not> sublist (py '' - '') a"
  shows "str_split (py '' - '') (b @ py '' - '' @ a) = [b, a]"
proof -
  have "py_split (py '' - '') [] (b @ py '' - '' @ a) = (rev [] @ b) # py_split (py '' - '') [] a"
    by (rule py_split_first) (use no_early_separator[OF assms(1,2)] in auto)
  then show ?thesis
    using py_split_no_match[OF assms(3), of "[]"] by (simp add: str_split_def)
qed

lemma parse_exported_line:
  assumes "exportable_name b" and "\<not> suffix (py '' -'') b" and "exportable_name a" and "list_all isspace w"
  shows "parse_line_spec (b @ py '' - '' @ a @ w) = Some (b, a)"
proof -
  have b: "b \<noteq> []" "\<not> isspace (hd b)" "\<not> isspace (last b)" "\<not> sublist (py '' - '') b"
    and a: "a \<noteq> []" "\<not> isspace (hd a)" "\<not> isspace (last a)" "\<not> sublist (py '' - '') a"
    using assms(1,3) by (simp_all add: exportable_name_def)
  have "strip ((b @ py '' - '' @ a) @ w) = strip (b @ py '' - '' @ a)"
    using assms(4) by (rule strip_append_space)
  also have "\<dots> = b @ py '' - '' @ a"
    using b a by (intro strip_id) (simp_all add: hd_append)
  finally have line: "strip (b @ py '' - '' @ a @ w) = b @ py '' - '' @ a" by simp
  have parts: "str_split (py '' - '') (b @ py '' - '' @ a) = [b, a]"
    using b(4) assms(2) a(4) by (rule str_split_line)
  have sub: "sublist (py '' - '') (b @ py '' - '' @ a)"
    by (rule sublist_appendI)
  show ?thesis
    unfolding parse_line_spec_def line Let_def parts
    using sub b a by (simp add: strip_id)
qed



lemma readlines_last:
  "l \<noteq> [] \<Longrightarrow> 10 \<notin> set l \<Longrightarrow> 13 \<notin> set l \<Longrightarrow> readlines l = [l]"
proof (induction l)
  case Nil
  then show ?case by simp
next
  case (Cons c l)
  show ?case
  proof (cases "l = []")
    case True
    with Cons.prems show ?thesis by simp
  next
    case False
    with Cons show ?thesis by simp
  qed
qed









section \<open>Export followed by import\<close>

lemma acdc_app_eq:
  "acdc_app =
     \<lparr>data = \<lparr>bands = [(py ''AC - DC'', \<lparr>albums = [(py ''Back in Black'', \<lparr>image_ref = None\<rparr>)]\<rparr>)]\<rparr>,
      selected_band = Some (py ''AC - DC''), selected_album = Some (py ''Back in Black''),
      files = files example_app, locked = [],
      inventory = Document
        \<lparr>bands = [(py ''AC - DC'', \<lparr>albums = [(py ''Back in Black'', \<lparr>image_ref = None\<rparr>)]\<rparr>)]\<rparr>,
      inventory_writable = True, export_file = None, export_writable = True, notices = []\<rparr>"
  by (simp add: acdc_app_def example_app_def add_album_def add_band_def validate_input_def
        re_search_forbidden_def forbidden_def strip_def isspace_def keys_def empty_data_def
        save_data_def refresh_bands_def refresh_albums_def select_band_by_name_def
        select_album_by_name_def band_listbox_def album_listbox_def on_band_select_def
        on_album_select_def Let_def)






section \<open>Import and name validation\<close>

lemma parse_long:
  "parse_line_spec (py ''Who? - '' @ replicate 101 120) = Some (py ''Who?'', replicate 101 120)"
proof -
  have "\<not> sublist (py '' - '') (replicate 101 120)"
    using set_mono_sublist[of "py '' - ''" "replicate 101 (120::nat)"] by auto
  then have a: "exportable_name (replicate 101 120)"
    by (simp add: exportable_name_def isspace_def)
  have b: "exportable_name (py ''Who?'')" "\<not> suffix (py '' -'') (py ''Who?'')"
    by (simp_all add: exportable_name_def isspace_def sublist_code suffix_to_prefix)
  show ?thesis
    using parse_exported_line[OF b a, of "[]"] by simp
qed

lemma readlines_long:
  "readlines (py ''Who? - '' @ replicate 101 120) = [py ''Who? - '' @ replicate 101 120]"
  by (rule readlines_last) simp_all

text \<open>
  Claim C10.  The import validates no name: from any catalog, the import of one line
  yields an album whose band name contains \<open>?\<close> and whose own name has 101 characters,
  and \<open>validate_input\<close> rejects both names.
\<close>

theorem import_collection_skips_validation:
  "\<exists>text b a. album_of (data (import_collection (Contents text) s)) b a \<noteq> None \<and>
     list_ex forbidden b \<and> \<not> fst (validate_input b) \<and>
     length a > 100 \<and> \<not> fst (validate_input a)"
proof (intro exI conjI)
  show "album_of (data (import_collection (Contents (py ''Who? - '' @ replicate 101 120)) s))
          (py ''Who?'') (replicate 101 120) \<noteq> None"
    unfolding data_after_import import_lines_album_of readlines_long
    using parse_long by simp
  show "list_ex forbidden (py ''Who?'')" by (simp add: forbidden_def)
  show "\<not> fst (validate_input (py ''Who?''))"
    by (simp add: validate_input_def re_search_forbidden_def forbidden_def strip_def isspace_def)
  show "length (replicate 101 (120::nat)) > 100" by simp
  show "\<not> fst (validate_input (replicate 101 120))"
    by (simp add: validate_input_def strip_Nil_iff list_all_iff isspace_def)
qed

section \<open>The destination of an image\<close>

lemma find_dest_free_id: "dest \<notin> set (keys fs) \<Longrightarrow> find_dest fs dir san ext dest c = dest"
  by (subst find_dest.simps) simp

lemma find_dest_step:
  "dest \<in> set (keys fs) \<Longrightarrow>
     find_dest fs dir san ext dest c = find_dest fs dir san ext (candidate dir san ext c) (Suc c)"
  by (subst find_dest.simps) (simp add: candidate_def)

lemma find_dest_free: "find_dest fs dir san ext dest c \<notin> set (keys fs)"
proof (induction fs dir san ext dest c rule: find_dest.induct)
  case (1 fs dir san ext dest c)
  show ?case
  proof (cases "dest \<in> set (keys fs)")
    case True
    with 1 show ?thesis by (subst find_dest.simps) simp
  next
    case False
    then show ?thesis by (simp add: find_dest_free_id)
  qed
qed

lemma find_dest_first:
  "dest \<in> set (keys fs) \<Longrightarrow>
     \<exists>k\<ge>c. find_dest fs dir san ext dest c = candidate dir san ext k \<and>
       (\<forall>j. c \<le> j \<and> j < k \<longrightarrow> candidate dir san ext j \<in> set (keys fs))"
proof (induction fs dir san ext dest c rule: find_dest.induct)
  case (1 fs dir san ext dest c)
  have step: "find_dest fs dir san ext dest c =
      find_dest fs dir san ext (candidate dir san ext c) (Suc c)"
    using "1.prems" by (rule find_dest_step)
  show ?case
  proof (cases "candidate dir san ext c \<in> set (keys fs)")
    case False
    then have "find_dest fs dir san ext dest c = candidate dir san ext c"
      by (simp add: step find_dest_free_id)
    then show ?thesis by (intro exI[of _ c]) auto
  next
    case True
    from "1.IH"[OF "1.prems"] True
    obtain k where k: "Suc c \<le> k"
      "find_dest fs dir san ext (candidate dir san ext c) (Suc c) = candidate dir san ext k"
      "\<forall>j. Suc c \<le> j \<and> j < k \<longrightarrow> candidate dir san ext j \<in> set (keys fs)"
      by (auto simp: candidate_def)
    have "\<forall>j. c \<le> j \<and> j < k \<longrightarrow> candidate dir san ext j \<in> set (keys fs)"
    proof (intro allI impI)
      fix j assume j: "c \<le> j \<and> j < k"
      show "candidate dir san ext j \<in> set (keys fs)"
      proof (cases "j = c")
        case True
        with \<open>candidate dir san ext c \<in> set (keys fs)\<close> show ?thesis by simp
      next
        case False
        with j k(3) show ?thesis by (simp add: Suc_le_eq)
      qed
    qed
    with k show ?thesis
      by (intro exI[of _ k]) (simp add: step)
  qed
qed


lemma sanitize_no_sep: "47 \<notin> set (sanitize a)"
  by (auto simp: sanitize_def replace_space_def re_sub_forbidden_def forbidden_def)

lemma images_dir_shape:
  "IMAGES_DIR base = (if base = [] \<or> suffix [47] base then base @ py ''images'' else base @ [47] @ py ''images'')"
  by (simp add: IMAGES_DIR_def os_path_join_def)

lemma join_images_dir:
  assumes "\<not> prefix [47] f"
  shows "os_path_join (IMAGES_DIR base) f = IMAGES_DIR base @ [47] @ f"
proof -
  have "IMAGES_DIR base \<noteq> []" "\<not> suffix [47] (IMAGES_DIR base)"
    by (simp_all add: images_dir_shape suffix_def)
  with assms show ?thesis by (simp add: os_path_join_def)
qed

lemma relpath_in_images:
  assumes "\<not> prefix [47] f"
  shows "os_path_relpath (os_path_join (IMAGES_DIR base) f) base = py ''images/'' @ f"
  unfolding join_images_dir[OF assms]
  by (simp add: os_path_relpath_def images_dir_shape)

lemma resolve_in_images:
  assumes "\<not> prefix [47] f"
  shows "os_path_join base (py ''images/'' @ f) = os_path_join (IMAGES_DIR base) f"
  unfolding join_images_dir[OF assms]
  by (simp add: os_path_join_def images_dir_shape)


lemma allowed_ext_dot: "allowed_ext ext \<Longrightarrow> \<exists>r. ext = 46 # r"
  by (auto simp: allowed_ext_def)

lemma plain_name_not_abs: "47 \<notin> set san \<Longrightarrow> allowed_ext ext \<Longrightarrow> \<not> prefix [47] (san @ ext)"
  by (cases san) (auto dest: allowed_ext_dot)

lemma counted_name_not_abs: "47 \<notin> set san \<Longrightarrow> \<not> prefix [47] (san @ [95] @ str_nat k @ ext)"
  by (cases san) auto

lemma destination_free: "destination base fs san ext \<notin> set (keys fs)"
  unfolding destination_def by (rule find_dest_free)

lemma destination_plain:
  "os_path_join (IMAGES_DIR base) (san @ ext) \<notin> set (keys fs) \<Longrightarrow>
     destination base fs san ext = os_path_join (IMAGES_DIR base) (san @ ext)"
  unfolding destination_def by (rule find_dest_free_id)

lemma destination_counted:
  "os_path_join (IMAGES_DIR base) (san @ ext) \<in> set (keys fs) \<Longrightarrow>
     \<exists>k\<ge>1. destination base fs san ext = candidate (IMAGES_DIR base) san ext k \<and>
       (\<forall>j. 1 \<le> j \<and> j < k \<longrightarrow> candidate (IMAGES_DIR base) san ext j \<in> set (keys fs))"
  unfolding destination_def by (rule find_dest_first)

lemma destination_name:
  assumes "47 \<notin> set san" and "allowed_ext ext"
  shows "\<exists>f. f \<noteq> [] \<and> \<not> prefix [47] f \<and> destination base fs san ext = os_path_join (IMAGES_DIR base) f"
proof (cases "os_path_join (IMAGES_DIR base) (san @ ext) \<in> set (keys fs)")
  case False
  have "san @ ext \<noteq> []" using allowed_ext_dot[OF assms(2)] by auto
  then show ?thesis
    using destination_plain[OF False] plain_name_not_abs[OF assms] by blast
next
  case True
  from destination_counted[OF True] obtain k where
    "destination base fs san ext = candidate (IMAGES_DIR base) san ext k" by blast
  then show ?thesis
    using counted_name_not_abs[OF assms(1), of k ext]
    by (intro exI[of _ "san @ [95] @ str_nat k @ ext"]) (simp add: candidate_def)
qed

lemma destination_resolves:
  assumes "47 \<notin> set san" and "allowed_ext ext"
  shows "os_path_relpath (destination base fs san ext) base \<noteq> [] \<and>
     os_path_join base (os_path_relpath (destination base fs san ext) base) = destination base fs san ext"
proof -
  from destination_name[OF assms] obtain f where
    f: "\<not> prefix [47] f" "destination base fs san ext = os_path_join (IMAGES_DIR base) f"
    by blast
  show ?thesis
    unfolding f(2) relpath_in_images[OF f(1)] using resolve_in_images[OF f(1), of base] by simp
qed

lemma associate_image_success:
  assumes "selected_band s = Some b" and "b \<noteq> []" and "selected_album s = Some a" and "a \<noteq> []"
    and "album_of (data s) b a = Some al"
    and "img \<noteq> []" and "map_of (files s) img = Some (Picture n)"
    and "allowed_ext (lower (snd (os_path_splitext img)))"
    and "destination base (files s) (sanitize a) (lower (snd (os_path_splitext img))) \<notin> set (locked s)"
  shows "\<exists>d'. set_image b a
            (Some (os_path_relpath
               (destination base (files s) (sanitize a) (lower (snd (os_path_splitext img)))) base))
            (data s) = Some d' \<and>
     associate_image base img s =
       save_data (s\<lparr>files := AList.update
                      (destination base (files s) (sanitize a) (lower (snd (os_path_splitext img))))
                      (Picture n) (files s),
                    data := d'\<rparr>)"
proof -
  let ?dest = "destination base (files s) (sanitize a) (lower (snd (os_path_splitext img)))"
  from set_image_defined[OF assms(5), of "Some (os_path_relpath ?dest base)"]
  obtain d' where d': "set_image b a (Some (os_path_relpath ?dest base)) (data s) = Some d'"
    by blast
  have "associate_image base img s =
       save_data (s\<lparr>files := AList.update ?dest (Picture n) (files s), data := d'\<rparr>)"
    using assms(1-4,6-9) d'
    by (auto simp: associate_image_def Let_def shutil_copy_def destination_def sanitize_def
          allowed_ext_def)
  with d' show ?thesis by blast
qed


lemma keys_update: "set (keys (AList.update k v al)) = insert k (set (keys al))"
  using dom_update[of k v al] by (simp add: keys_def)

lemma plain_not_counted:
  assumes "47 \<notin> set san" and "allowed_ext ext"
  shows "candidate (IMAGES_DIR base) san ext k \<noteq> os_path_join (IMAGES_DIR base) (san @ ext)"
proof
  assume eq: "candidate (IMAGES_DIR base) san ext k = os_path_join (IMAGES_DIR base) (san @ ext)"
  have 1: "candidate (IMAGES_DIR base) san ext k = IMAGES_DIR base @ [47] @ (san @ [95] @ str_nat k @ ext)"
    unfolding candidate_def by (rule join_images_dir[OF counted_name_not_abs[OF assms(1)]])
  have 2: "os_path_join (IMAGES_DIR base) (san @ ext) = IMAGES_DIR base @ [47] @ (san @ ext)"
    by (rule join_images_dir[OF plain_name_not_abs[OF assms]])
  from eq have "[95] @ str_nat k @ ext = ext"
    unfolding 1 2 by simp
  then show False
    using allowed_ext_dot[OF assms(2)] by auto
qed

lemma destination_second:
  assumes "47 \<notin> set san" and "allowed_ext ext"
    and "os_path_join (IMAGES_DIR base) (san @ ext) \<notin> set (keys fs)"
    and "candidate (IMAGES_DIR base) san ext 1 \<notin> set (keys fs)"
  shows "destination base (AList.update (os_path_join (IMAGES_DIR base) (san @ ext)) c fs) san ext =
     candidate (IMAGES_DIR base) san ext 1"
proof -
  let ?fs = "AList.update (os_path_join (IMAGES_DIR base) (san @ ext)) c fs"
  have "os_path_join (IMAGES_DIR base) (san @ ext) \<in> set (keys ?fs)"
    by (simp add: keys_update)
  from destination_counted[OF this] obtain k where
    k: "1 \<le> k" "destination base ?fs san ext = candidate (IMAGES_DIR base) san ext k"
      "\<forall>j. 1 \<le> j \<and> j < k \<longrightarrow> candidate (IMAGES_DIR base) san ext j \<in> set (keys ?fs)"
    by blast
  have "candidate (IMAGES_DIR base) san ext 1 \<notin> set (keys ?fs)"
    using assms(4) plain_not_counted[OF assms(1,2), of base 1] by (simp add: keys_update)
  with k(1,3) have "k = 1"
    by (metis le_neq_implies_less le_refl)
  with k(2) show ?thesis by simp
qed

lemma save_data_fields [simp]:
  "data (save_data s) = data s" "files (save_data s) = files s" "locked (save_data s) = locked s"
  "selected_band (save_data s) = selected_band s" "selected_album (save_data s) = selected_album s"
  by (simp_all add: save_data_def handle_error_def)

text \<open>
  Claim C4, amended.  For a selected album and a chosen picture with an allowed extension,
  \<open>associate_image\<close> copies the picture to a destination that did not exist.  The
  destination is the images directory joined with the sanitized album name and the
  extension of the source in lower case; if that path exists, the name carries \<open>_k\<close>
  before the extension, for the least \<open>k\<close> from 1 on whose path is free.  The album then
  refers to the destination relative to the base directory, and the reference resolves
  to it.  A second call, for an album with the same sanitized name and a source with the
  same lowered extension, copies to a destination different from the first; when the
  plain path and the \<open>_1\<close> path were free before the first call, the first call takes
  the plain path and the second the \<open>_1\<close> path.
\<close>

theorem associate_image_destination:
  assumes "selected_band s = Some b" and "b \<noteq> []" and "selected_album s = Some a" and "a \<noteq> []"
    and "album_of (data s) b a = Some al"
    and "img \<noteq> []" and "map_of (files s) img = Some (Picture n)"
    and "allowed_ext (image_ext img)"
    and "destination base (files s) (sanitize a) (image_ext img) \<notin> set (locked s)"
  shows
    "files (associate_image base img s) =
       AList.update (destination base (files s) (sanitize a) (image_ext img)) (Picture n) (files s) \<and>
     destination base (files s) (sanitize a) (image_ext img) \<notin> set (keys (files s)) \<and>
     (os_path_join (IMAGES_DIR base) (sanitize a @ image_ext img) \<notin> set (keys (files s)) \<longrightarrow>
        destination base (files s) (sanitize a) (image_ext img) =
          os_path_join (IMAGES_DIR base) (sanitize a @ image_ext img)) \<and>
     (os_path_join (IMAGES_DIR base) (sanitize a @ image_ext img) \<in> set (keys (files s)) \<longrightarrow>
        (\<exists>k\<ge>1. destination base (files s) (sanitize a) (image_ext img) =
             os_path_join (IMAGES_DIR base) (sanitize a @ py ''_'' @ str_nat k @ image_ext img) \<and>
           (\<forall>j. 1 \<le> j \<and> j < k \<longrightarrow>
              os_path_join (IMAGES_DIR base) (sanitize a @ py ''_'' @ str_nat j @ image_ext img)
                \<in> set (keys (files s))))) \<and>
     album_of (data (associate_image base img s)) b a =
       Some (al\<lparr>image_ref :=
         Some (os_path_relpath (destination base (files s) (sanitize a) (image_ext img)) base)\<rparr>) \<and>
     os_path_join base (os_path_relpath (destination base (files s) (sanitize a) (image_ext img)) base) =
       destination base (files s) (sanitize a) (image_ext img) \<and>
     (album_of (data s) b a2 = Some al2 \<and> a2 \<noteq> [] \<and> sanitize a2 = sanitize a \<and>
      img2 \<noteq> [] \<and> map_of (files s) img2 = Some (Picture n2) \<and> image_ext img2 = image_ext img \<and>
      destination base (files (associate_image base img s)) (sanitize a) (image_ext img) \<notin> set (locked s) \<longrightarrow>
        destination base (files (associate_image base img s)) (sanitize a) (image_ext img) \<noteq>
          destination base (files s) (sanitize a) (image_ext img) \<and>
        files (associate_image base img2 (on_album_select a2 (associate_image base img s))) =
          AList.update (destination base (files (associate_image base img s)) (sanitize a) (image_ext img))
            (Picture n2) (files (associate_image base img s)) \<and>
        (os_path_join (IMAGES_DIR base) (sanitize a @ image_ext img) \<notin> set (keys (files s)) \<and>
         os_path_join (IMAGES_DIR base) (sanitize a @ py ''_1'' @ image_ext img) \<notin> set (keys (files s)) \<longrightarrow>
           destination base (files (associate_image base img s)) (sanitize a) (image_ext img) =
             os_path_join (IMAGES_DIR base) (sanitize a @ py ''_1'' @ image_ext img)))"
    (is "?A \<and> ?B \<and> ?C \<and> ?D \<and> ?E \<and> ?F \<and> ?G")
proof -
  let ?ext = "image_ext img"
  let ?san = "sanitize a"
  let ?dest = "destination base (files s) ?san ?ext"
  let ?plain = "os_path_join (IMAGES_DIR base) (?san @ ?ext)"
  let ?s1 = "associate_image base img s"
  let ?dest2 = "destination base (files ?s1) ?san ?ext"
  from associate_image_success[OF assms(1-7) assms(8)[unfolded image_ext_def] assms(9)[unfolded image_ext_def]]
  obtain d' where d': "set_image b a (Some (os_path_relpath ?dest base)) (data s) = Some d'"
    and s1: "?s1 = save_data (s\<lparr>files := AList.update ?dest (Picture n) (files s), data := d'\<rparr>)"
    by (auto simp: image_ext_def)
  have files1: "files ?s1 = AList.update ?dest (Picture n) (files s)"
    by (simp add: s1)
  have free: "?dest \<notin> set (keys (files s))"
    by (rule destination_free)
  have plain: "?plain \<notin> set (keys (files s)) \<longrightarrow> ?dest = ?plain"
    using destination_plain by blast
  have counted: "?plain \<in> set (keys (files s)) \<longrightarrow>
        (\<exists>k\<ge>1. ?dest = os_path_join (IMAGES_DIR base) (?san @ py ''_'' @ str_nat k @ ?ext) \<and>
           (\<forall>j. 1 \<le> j \<and> j < k \<longrightarrow>
              os_path_join (IMAGES_DIR base) (?san @ py ''_'' @ str_nat j @ ?ext) \<in> set (keys (files s))))"
    using destination_counted[of base ?san ?ext "files s"] by (simp add: candidate_def)
  have album1: "album_of (data ?s1) b a' =
      (if a' = a then Some (al\<lparr>image_ref := Some (os_path_relpath ?dest base)\<rparr>) else album_of (data s) b a')" for a'
    using set_image_album_of[OF d', of b a'] assms(5) by (simp add: s1)
  have resolves: "os_path_join base (os_path_relpath ?dest base) = ?dest"
    using destination_resolves[of "sanitize a" "image_ext img" base "files s"] sanitize_no_sep assms(8)
    by simp
  have sb1: "selected_band ?s1 = Some b" and lk1: "locked ?s1 = locked s"
    using assms(1) by (simp_all add: s1)
  have second: "?dest2 \<noteq> ?dest \<and>
        files (associate_image base img2 (on_album_select a2 ?s1)) =
          AList.update ?dest2 (Picture n2) (files ?s1) \<and>
        (?plain \<notin> set (keys (files s)) \<and>
         os_path_join (IMAGES_DIR base) (?san @ py ''_1'' @ ?ext) \<notin> set (keys (files s)) \<longrightarrow>
           ?dest2 = os_path_join (IMAGES_DIR base) (?san @ py ''_1'' @ ?ext))"
    if h: "album_of (data s) b a2 = Some al2" "a2 \<noteq> []" "sanitize a2 = sanitize a"
      "img2 \<noteq> []" "map_of (files s) img2 = Some (Picture n2)" "image_ext img2 = image_ext img"
      "?dest2 \<notin> set (locked s)"
  proof -
    define t where "t = associate_image base img s"
    define t' where "t' = on_album_select a2 t"
    have band: "b \<in> set (keys (bands (data t)))"
      using album1[of a] by (auto simp: t_def album_of_def in_keys_iff split: option.splits)
    have sel': "t' = t\<lparr>selected_album := Some a2\<rparr>"
      using band sb1 assms(2) by (simp add: t'_def on_album_select_def t_def[symmetric])
    have neq: "?dest2 \<noteq> ?dest"
      using destination_free[of base "files ?s1" ?san ?ext] by (auto simp: files1 keys_update)
    have "img2 \<in> set (keys (files s))"
      using h(5) by (simp add: in_keys_iff)
    with free have "img2 \<noteq> ?dest" by auto
    then have img2: "map_of (files t') img2 = Some (Picture n2)"
      using h(5) by (simp add: sel' t_def files1 update_conv')
    have "album_of (data t) b a2 \<noteq> None"
      using album1[of a2] h(1) by (cases "a2 = a") (simp_all add: t_def)
    then obtain al2' where al2': "album_of (data t') b a2 = Some al2'"
      by (auto simp: sel')
    have sb: "selected_band t' = Some b" and sa: "selected_album t' = Some a2"
      using sb1 by (simp_all add: sel' t_def)
    have ft: "files t' = files ?s1"
      by (simp add: sel' t_def)
    have lk: "destination base (files t') (sanitize a2) (lower (snd (os_path_splitext img2))) \<notin> set (locked t')"
      using h(7) h(3) h(6) lk1 by (simp add: ft sel' t_def[symmetric] image_ext_def)
    have ext2: "allowed_ext (lower (snd (os_path_splitext img2)))"
      using assms(8) h(6) by (simp add: image_ext_def)
    from associate_image_success[OF sb assms(2) sa h(2) al2' h(4) img2 ext2 lk]
    obtain d2 where "associate_image base img2 t' =
      save_data (t'\<lparr>files := AList.update
          (destination base (files t') (sanitize a2) (lower (snd (os_path_splitext img2))))
          (Picture n2) (files t'), data := d2\<rparr>)"
      by blast
    then have "files (associate_image base img2 t') =
        AList.update (destination base (files t') (sanitize a2) (image_ext img2)) (Picture n2) (files t')"
      by (simp add: image_ext_def)
    then have files2: "files (associate_image base img2 (on_album_select a2 ?s1)) =
        AList.update ?dest2 (Picture n2) (files ?s1)"
      unfolding ft h(3) h(6) by (simp add: t'_def t_def)
    have one: "?dest2 = os_path_join (IMAGES_DIR base) (?san @ py ''_1'' @ ?ext)"
      if "?plain \<notin> set (keys (files s))"
        "os_path_join (IMAGES_DIR base) (?san @ py ''_1'' @ ?ext) \<notin> set (keys (files s))"
    proof -
      have "?dest = ?plain" using plain that(1) by simp
      moreover have "candidate (IMAGES_DIR base) ?san ?ext 1 \<notin> set (keys (files s))"
        using that(2) by (simp add: candidate_def str_nat.simps)
      ultimately show ?thesis
        using destination_second[of "sanitize a" "image_ext img" base "files s" "Picture n"]
          sanitize_no_sep[of a] assms(8) that(1)
        by (simp add: files1 candidate_def str_nat.simps)
    qed
    show ?thesis using neq files2 one by blast
  qed
  have e: ?E using album1[of a] by simp
  have g: ?G using second by blast
  show ?thesis
    by (intro conjI) (fact files1, fact free, fact plain, fact counted, fact e, fact resolves, fact g)
qed


section \<open>Adding an album, associating and removing its image\<close>

lemma valid_name_iff:
  "fst (validate_input name) \<longleftrightarrow>
     \<not> list_all isspace name \<and> length name \<le> 100 \<and> \<not> list_ex forbidden name"
  by (auto simp: validate_input_def strip_Nil_iff re_search_forbidden_def)

lemma strip_subset: "set (strip s) \<subseteq> set s"
proof
  fix x assume "x \<in> set (strip s)"
  then have "x \<in> set (dropWhile isspace (rev (dropWhile isspace s)))"
    by (simp add: strip_def)
  then have "x \<in> set (rev (dropWhile isspace s))" by (rule set_dropWhileD)
  then have "x \<in> set (dropWhile isspace s)" by simp
  then show "x \<in> set s" by (rule set_dropWhileD)
qed

lemma length_strip: "length (strip s) \<le> length s"
proof -
  have "length (strip s) \<le> length (rev (dropWhile isspace s))"
    using length_dropWhile_le[of isspace "rev (dropWhile isspace s)"] by (simp add: strip_def)
  also have "\<dots> \<le> length s" by (simp add: length_dropWhile_le)
  finally show ?thesis .
qed

lemma strip_not_space: "\<not> list_all isspace s \<Longrightarrow> \<not> list_all isspace (strip s)"
proof -
  assume "\<not> list_all isspace s"
  then have ne: "strip s \<noteq> []" by (simp add: strip_Nil_iff)
  then have d: "dropWhile isspace (rev (dropWhile isspace s)) \<noteq> []"
    by (simp add: strip_def)
  have "\<not> isspace (hd (dropWhile isspace (rev (dropWhile isspace s))))"
    using d by (rule hd_dropWhile)
  moreover have "hd (dropWhile isspace (rev (dropWhile isspace s))) \<in> set (strip s)"
    using d by (simp add: strip_def)
  ultimately show ?thesis by (auto simp: list_all_iff)
qed

lemma validate_input_strip: "fst (validate_input e) \<Longrightarrow> fst (validate_input (strip e))"
proof -
  assume "fst (validate_input e)"
  then have v: "\<not> list_all isspace e" "length e \<le> 100" "\<not> list_ex forbidden e"
    by (simp_all add: valid_name_iff)
  have "\<not> list_all isspace (strip e)" using v(1) by (rule strip_not_space)
  moreover have "length (strip e) \<le> 100" using length_strip[of e] v(2) by simp
  moreover have "\<not> list_ex forbidden (strip e)"
    using v(3) strip_subset[of e] by (auto simp: list_ex_iff)
  ultimately show ?thesis
    by (simp add: valid_name_iff)
qed

lemma add_album_success:
  assumes "selected_band s = Some b" and "b \<noteq> []" and "map_of (bands (data s)) b = Some bd"
    and "fst (validate_input entry)" and "strip entry \<notin> set (keys (albums bd))"
  shows "add_album [PressOk entry] s =
     (save_data (s\<lparr>data := (data s)\<lparr>bands :=
        AList.update b (bd\<lparr>albums := AList.update (strip entry) \<lparr>image_ref = None\<rparr> (albums bd)\<rparr>)
          (bands (data s))\<rparr>\<rparr>))\<lparr>selected_album := Some (strip entry)\<rparr>"
proof -
  obtain m where v: "validate_input entry = (True, m)"
    using assms(4) by (cases "validate_input entry") auto
  obtain m' where v': "validate_input (strip entry) = (True, m')"
    using validate_input_strip[OF assms(4)] by (cases "validate_input (strip entry)") auto
  have ne: "entry \<noteq> []"
    using assms(4) by (auto simp: valid_name_iff)
  show ?thesis
    using assms(1,2,3,5) ne
    by (simp add: add_album_def v v' Let_def select_album_by_name_def album_listbox_def
          on_album_select_def refresh_albums_def update_conv' keys_update in_keys_iff)
qed

lemma remove_image_success:
  assumes "selected_band t = Some b" and "b \<noteq> []" and "selected_album t = Some a" and "a \<noteq> []"
    and "album_of (data t) b a = Some al" and "image_ref al = Some rel" and "rel \<noteq> []"
    and "os_path_join base rel \<in> set (keys (files t))"
    and "os_path_join base rel \<notin> set (locked t)"
  shows "\<exists>d'. set_image b a None (data t) = Some d' \<and>
     remove_image base t =
       save_data (t\<lparr>files := AList.delete (os_path_join base rel) (files t), data := d'\<rparr>)"
proof -
  from set_image_defined[OF assms(5), of None]
  obtain d' where d': "set_image b a None (data t) = Some d'" by blast
  obtain bd where bd: "map_of (bands (data t)) b = Some bd" "map_of (albums bd) a = Some al"
    using assms(5) by (auto simp: album_of_def split: option.splits)
  have "remove_image base t =
       save_data (t\<lparr>files := AList.delete (os_path_join base rel) (files t), data := d'\<rparr>)"
    using assms(1-4,6-9) bd d'
    by (simp add: remove_image_def remove_asset_def Let_def os_path_exists_def try_remove_def)
  with d' show ?thesis by blast
qed


text \<open>
  Claim C8.  With a band selected, an entry that the validation accepts and whose trimmed
  form is not yet an album of the band, a picture with an allowed extension, and a
  destination on which copying and removing are permitted: after \<open>add_album\<close> the album is
  there without image; after \<open>associate_image\<close> it refers to the destination, which holds
  the picture and did not exist before; after \<open>remove_image\<close> the album is still there,
  without image, the destination does not exist, and the files are those from before.
\<close>

theorem add_associate_remove:
  assumes "selected_band s = Some b" and "b \<noteq> []" and "map_of (bands (data s)) b = Some bd"
    and "fst (validate_input entry)" and "strip entry \<notin> set (keys (albums bd))"
    and "img \<noteq> []" and "map_of (files s) img = Some (Picture n)"
    and "allowed_ext (image_ext img)"
    and "destination base (files s) (sanitize (strip entry)) (image_ext img) \<notin> set (locked s)"
  shows
    "album_of (data (add_album [PressOk entry] s)) b (strip entry) = Some \<lparr>image_ref = None\<rparr> \<and>
     album_of (data (associate_image base img (add_album [PressOk entry] s))) b (strip entry) =
       Some \<lparr>image_ref = Some (os_path_relpath
         (destination base (files s) (sanitize (strip entry)) (image_ext img)) base)\<rparr> \<and>
     map_of (files (associate_image base img (add_album [PressOk entry] s)))
       (destination base (files s) (sanitize (strip entry)) (image_ext img)) = Some (Picture n) \<and>
     destination base (files s) (sanitize (strip entry)) (image_ext img) \<notin> set (keys (files s)) \<and>
     album_of (data (remove_image base (associate_image base img (add_album [PressOk entry] s))))
       b (strip entry) = Some \<lparr>image_ref = None\<rparr> \<and>
     \<not> os_path_exists (remove_image base (associate_image base img (add_album [PressOk entry] s)))
       (destination base (files s) (sanitize (strip entry)) (image_ext img)) \<and>
     files (remove_image base (associate_image base img (add_album [PressOk entry] s))) = files s"
    (is "?A \<and> ?B \<and> ?C \<and> ?D \<and> ?E \<and> ?F \<and> ?G")
proof -
  define a where "a = strip entry"
  define s1 where "s1 = add_album [PressOk entry] s"
  define s2 where "s2 = associate_image base img s1"
  define s3 where "s3 = remove_image base s2"
  define dest where "dest = destination base (files s) (sanitize a) (image_ext img)"
  define rel where "rel = os_path_relpath dest base"
  have ane: "a \<noteq> []"
    using validate_input_strip[OF assms(4)] by (auto simp: a_def valid_name_iff)
  have s1: "s1 = (save_data (s\<lparr>data := (data s)\<lparr>bands :=
        AList.update b (bd\<lparr>albums := AList.update a \<lparr>image_ref = None\<rparr> (albums bd)\<rparr>)
          (bands (data s))\<rparr>\<rparr>))\<lparr>selected_album := Some a\<rparr>"
    unfolding s1_def a_def by (rule add_album_success[OF assms(1-5)])
  have f1: "files s1 = files s" "locked s1 = locked s" "selected_band s1 = Some b"
    "selected_album s1 = Some a"
    using assms(1) by (simp_all add: s1)
  have al1: "album_of (data s1) b a = Some \<lparr>image_ref = None\<rparr>"
    by (simp add: s1 album_of_def update_conv')
  have lk: "destination base (files s1) (sanitize a) (image_ext img) \<notin> set (locked s1)"
    using assms(9) by (simp add: f1 a_def)
  have img1: "map_of (files s1) img = Some (Picture n)"
    using assms(7) by (simp add: f1)
  obtain d' where d': "set_image b a (Some (os_path_relpath
        (destination base (files s1) (sanitize a) (lower (snd (os_path_splitext img)))) base)) (data s1) = Some d'"
    and s2: "s2 = save_data (s1\<lparr>files := AList.update
        (destination base (files s1) (sanitize a) (lower (snd (os_path_splitext img))))
        (Picture n) (files s1), data := d'\<rparr>)"
    using associate_image_success[OF f1(3) assms(2) f1(4) ane al1 assms(6) img1
        assms(8)[unfolded image_ext_def] lk[unfolded image_ext_def]]
    unfolding s2_def by blast
  have dd: "destination base (files s) (sanitize a) (lower (snd (os_path_splitext img))) = dest"
    by (simp add: dest_def image_ext_def)
  have f2: "files s2 = AList.update dest (Picture n) (files s)"
    by (simp add: s2 f1 dd)
  have free: "dest \<notin> set (keys (files s))"
    unfolding dest_def by (rule destination_free)
  have al2: "album_of (data s2) b a = Some \<lparr>image_ref = Some rel\<rparr>"
    using set_image_album_of[OF d', of b a] al1 by (simp add: s2 f1 dd rel_def)
  have rr: "rel \<noteq> [] \<and> os_path_join base rel = dest"
    using destination_resolves[of "sanitize a" "image_ext img" base "files s"]
      sanitize_no_sep[of a] assms(8) by (simp add: rel_def dest_def)
  then have res: "os_path_join base rel = dest" and relne: "rel \<noteq> []"
    by simp_all
  have g2: "selected_band s2 = Some b" "selected_album s2 = Some a" "locked s2 = locked s"
    by (simp_all add: s2 f1)
  have in2: "os_path_join base rel \<in> set (keys (files s2))"
    by (simp add: res f2 keys_update)
  have nl2: "os_path_join base rel \<notin> set (locked s2)"
    using assms(9) by (simp add: res g2 dest_def a_def)
  from remove_image_success[OF g2(1) assms(2) g2(2) ane al2 _ relne in2 nl2]
  obtain d3 where d3: "set_image b a None (data s2) = Some d3"
    and s3: "s3 = save_data (s2\<lparr>files := AList.delete (os_path_join base rel) (files s2), data := d3\<rparr>)"
    unfolding s3_def by auto
  have f3: "files s3 = files s"
    using free by (simp add: s3 res f2 delete_update_same keys_def)
  have al3: "album_of (data s3) b a = Some \<lparr>image_ref = None\<rparr>"
    using set_image_album_of[OF d3, of b a] al2 by (simp add: s3)
  have gone: "\<not> os_path_exists s3 dest"
    using free by (simp add: os_path_exists_def f3)
  have copied: "map_of (files s2) dest = Some (Picture n)"
    by (simp add: f2 update_conv')
  show ?thesis
    using al1 al2 copied free al3 gone f3
    unfolding s3_def s2_def s1_def rel_def dest_def a_def by blast
qed


section \<open>Evaluations\<close>

lemma cover_ext:
  "snd (os_path_splitext (py ''/home/u/cover.PNG'')) = py ''.PNG''"
  "image_ext (py ''/home/u/cover.PNG'') = py ''.png''"
  by (simp_all add: image_ext_def os_path_splitext_def rfind_def lower_def Let_def)

lemma sanitize_back: "sanitize (py ''Back in Black'') = py ''Back_in_Black''"
  by (simp add: sanitize_def replace_space_def re_sub_forbidden_def forbidden_def)

lemma back_paths:
  "os_path_join (IMAGES_DIR (py ''/app'')) (py ''Back_in_Black'' @ py ''.png'') =
     py ''/app/images/Back_in_Black.png''"
  "os_path_join (IMAGES_DIR (py ''/app'')) (py ''Back_in_Black'' @ py ''_1'' @ py ''.png'') =
     py ''/app/images/Back_in_Black_1.png''"
  by (simp_all add: IMAGES_DIR_def os_path_join_def suffix_to_prefix)

lemma acdc_destination:
  "destination (py ''/app'') (files acdc_app) (py ''Back_in_Black'') (py ''.png'') =
     py ''/app/images/Back_in_Black.png''"
  using destination_plain[of "py ''/app''" "py ''Back_in_Black''" "py ''.png''" "files acdc_app"]
  by (simp add: back_paths[simplified] acdc_app_eq example_app_def keys_def)

text \<open>
  Claim C4, as stated, fails on the extension.  The album \<open>Back in Black\<close> is selected and
  the chosen file is \<open>/home/u/cover.PNG\<close>, whose extension is \<open>.PNG\<close>.  The file created is
  \<open>Back_in_Black.png\<close>: the sanitized name with the extension in lower case, not with the
  extension of the source as it is written.
\<close>

theorem associate_image_extension_counterexample:
  "selected_album acdc_app = Some (py ''Back in Black'') \<and>
   sanitize (py ''Back in Black'') = py ''Back_in_Black'' \<and>
   snd (os_path_splitext (py ''/home/u/cover.PNG'')) = py ''.PNG'' \<and>
   keys (files (associate_image (py ''/app'') (py ''/home/u/cover.PNG'') acdc_app)) =
     keys (files acdc_app) @ [py ''/app/images/Back_in_Black.png''] \<and>
   py ''/app/images/Back_in_Black.PNG'' \<notin>
     set (keys (files (associate_image (py ''/app'') (py ''/home/u/cover.PNG'') acdc_app)))"
proof -
  have sel: "selected_band acdc_app = Some (py ''AC - DC'')" "py ''AC - DC'' \<noteq> []"
    "selected_album acdc_app = Some (py ''Back in Black'')" "py ''Back in Black'' \<noteq> []"
    by (simp_all add: acdc_app_eq)
  have al: "album_of (data acdc_app) (py ''AC - DC'') (py ''Back in Black'') = Some \<lparr>image_ref = None\<rparr>"
    by (simp add: acdc_app_eq album_of_def)
  have img: "py ''/home/u/cover.PNG'' \<noteq> []"
    "map_of (files acdc_app) (py ''/home/u/cover.PNG'') = Some (Picture 7)"
    by (simp_all add: acdc_app_eq example_app_def)
  have ext: "allowed_ext (lower (snd (os_path_splitext (py ''/home/u/cover.PNG''))))"
    using cover_ext(2) by (simp add: image_ext_def allowed_ext_def)
  have lk: "destination (py ''/app'') (files acdc_app) (sanitize (py ''Back in Black''))
      (lower (snd (os_path_splitext (py ''/home/u/cover.PNG'')))) \<notin> set (locked acdc_app)"
    by (simp add: acdc_app_eq)
  from associate_image_success[OF sel al img ext lk]
  have "files (associate_image (py ''/app'') (py ''/home/u/cover.PNG'') acdc_app) =
      AList.update (py ''/app/images/Back_in_Black.png'') (Picture 7) (files acdc_app)"
    using acdc_destination cover_ext(2) sanitize_back by (auto simp: image_ext_def)
  then show ?thesis
    using sel(3) sanitize_back cover_ext(1)
    by (simp add: acdc_app_eq example_app_def keys_def)
qed


theorem associate_image_destination_witness:
  "selected_band acdc_app = Some (py ''AC - DC'') \<and>
   selected_album acdc_app = Some (py ''Back in Black'') \<and>
   album_of (data acdc_app) (py ''AC - DC'') (py ''Back in Black'') = Some \<lparr>image_ref = None\<rparr> \<and>
   map_of (files acdc_app) (py ''/home/u/cover.PNG'') = Some (Picture 7) \<and>
   allowed_ext (image_ext (py ''/home/u/cover.PNG'')) \<and>
   files (associate_image (py ''/app'') (py ''/home/u/cover.PNG'') acdc_app) =
     files acdc_app @ [(py ''/app/images/Back_in_Black.png'', Picture 7)] \<and>
   album_of (data (associate_image (py ''/app'') (py ''/home/u/cover.PNG'') acdc_app))
       (py ''AC - DC'') (py ''Back in Black'') =
     Some \<lparr>image_ref = Some (py ''images/Back_in_Black.png'')\<rparr> \<and>
   files (associate_image (py ''/app'') (py ''/home/u/cover.PNG'')
       (on_album_select (py ''Back in Black'')
          (associate_image (py ''/app'') (py ''/home/u/cover.PNG'') acdc_app))) =
     files acdc_app @ [(py ''/app/images/Back_in_Black.png'', Picture 7),
                       (py ''/app/images/Back_in_Black_1.png'', Picture 7)]"
proof -
  have sel: "selected_band acdc_app = Some (py ''AC - DC'')" "py ''AC - DC'' \<noteq> []"
    "selected_album acdc_app = Some (py ''Back in Black'')" "py ''Back in Black'' \<noteq> []"
    by (simp_all add: acdc_app_eq)
  have al: "album_of (data acdc_app) (py ''AC - DC'') (py ''Back in Black'') = Some \<lparr>image_ref = None\<rparr>"
    by (simp add: acdc_app_eq album_of_def)
  have img: "py ''/home/u/cover.PNG'' \<noteq> []"
    "map_of (files acdc_app) (py ''/home/u/cover.PNG'') = Some (Picture 7)"
    by (simp_all add: acdc_app_eq example_app_def)
  have ext: "allowed_ext (image_ext (py ''/home/u/cover.PNG''))"
    using cover_ext(2) by (simp add: allowed_ext_def)
  have lk: "destination (py ''/app'') (files acdc_app) (sanitize (py ''Back in Black''))
      (image_ext (py ''/home/u/cover.PNG'')) \<notin> set (locked acdc_app)"
    by (simp add: acdc_app_eq)
  have lk2: "destination (py ''/app'')
      (files (associate_image (py ''/app'') (py ''/home/u/cover.PNG'') acdc_app))
      (sanitize (py ''Back in Black'')) (image_ext (py ''/home/u/cover.PNG'')) \<notin> set (locked acdc_app)"
    by (simp add: acdc_app_eq)
  have free: "py ''/app/images/Back_in_Black.png'' \<notin> set (keys (files acdc_app))"
    "py ''/app/images/Back_in_Black_1.png'' \<notin> set (keys (files acdc_app))"
    by (simp_all add: acdc_app_eq example_app_def keys_def)
  have rel: "os_path_relpath (py ''/app/images/Back_in_Black.png'') (py ''/app'') = py ''images/Back_in_Black.png''"
    by (simp add: os_path_relpath_def)
  have d1: "destination (py ''/app'') (files acdc_app) (sanitize (py ''Back in Black''))
      (image_ext (py ''/home/u/cover.PNG'')) = py ''/app/images/Back_in_Black.png''"
    unfolding sanitize_back cover_ext(2) by (rule acdc_destination)
  have plain: "os_path_join (IMAGES_DIR (py ''/app''))
      (sanitize (py ''Back in Black'') @ image_ext (py ''/home/u/cover.PNG'')) =
      py ''/app/images/Back_in_Black.png''"
    unfolding sanitize_back cover_ext(2) by (rule back_paths(1))
  have one: "os_path_join (IMAGES_DIR (py ''/app''))
      (sanitize (py ''Back in Black'') @ py ''_1'' @ image_ext (py ''/home/u/cover.PNG'')) =
      py ''/app/images/Back_in_Black_1.png''"
    unfolding sanitize_back cover_ext(2) by (rule back_paths(2))
  note t = associate_image_destination[OF sel al img ext lk,
      of "py ''Back in Black''" "\<lparr>image_ref = None\<rparr>" "py ''/home/u/cover.PNG''" 7,
      unfolded d1 plain one]
  have f: "files acdc_app = [(py ''/home/u/cover.PNG'', Picture 7), (py ''/home/u/notes.png'', Other 3)]"
    by (simp add: acdc_app_eq example_app_def)
  have H: "album_of (data acdc_app) (py ''AC - DC'') (py ''Back in Black'') = Some \<lparr>image_ref = None\<rparr> \<and>
      py ''Back in Black'' \<noteq> [] \<and> sanitize (py ''Back in Black'') = sanitize (py ''Back in Black'') \<and>
      py ''/home/u/cover.PNG'' \<noteq> [] \<and>
      map_of (files acdc_app) (py ''/home/u/cover.PNG'') = Some (Picture 7) \<and>
      image_ext (py ''/home/u/cover.PNG'') = image_ext (py ''/home/u/cover.PNG'') \<and>
      destination (py ''/app'')
        (files (associate_image (py ''/app'') (py ''/home/u/cover.PNG'') acdc_app))
        (sanitize (py ''Back in Black'')) (image_ext (py ''/home/u/cover.PNG'')) \<notin> set (locked acdc_app)"
    using al img lk2 by simp
  have P: "py ''/app/images/Back_in_Black.png'' \<notin> set (keys (files acdc_app)) \<and>
      py ''/app/images/Back_in_Black_1.png'' \<notin> set (keys (files acdc_app))"
    using free by simp
  note A = t[THEN conjunct1]
  note E = t[THEN conjunct2, THEN conjunct2, THEN conjunct2, THEN conjunct2, THEN conjunct1]
  note G = t[THEN conjunct2, THEN conjunct2, THEN conjunct2, THEN conjunct2, THEN conjunct2,
      THEN conjunct2, THEN mp, OF H]
  note G2 = G[THEN conjunct2, THEN conjunct1]
  note G3 = G[THEN conjunct2, THEN conjunct2, THEN mp, OF P]
  have files1: "files (associate_image (py ''/app'') (py ''/home/u/cover.PNG'') acdc_app) =
     files acdc_app @ [(py ''/app/images/Back_in_Black.png'', Picture 7)]"
    using A f by simp
  have album1: "album_of (data (associate_image (py ''/app'') (py ''/home/u/cover.PNG'') acdc_app))
       (py ''AC - DC'') (py ''Back in Black'') =
     Some \<lparr>image_ref = Some (py ''images/Back_in_Black.png'')\<rparr>"
    using E rel by simp
  have files2: "files (associate_image (py ''/app'') (py ''/home/u/cover.PNG'')
       (on_album_select (py ''Back in Black'')
          (associate_image (py ''/app'') (py ''/home/u/cover.PNG'') acdc_app))) =
     files acdc_app @ [(py ''/app/images/Back_in_Black.png'', Picture 7),
                       (py ''/app/images/Back_in_Black_1.png'', Picture 7)]"
    using G2[unfolded G3] files1 f by simp
  show ?thesis
    using sel(1,3) al img(2) ext files1 album1 files2 by blast
qed

lemma queen_innuendo:
  "selected_band queen_app = Some (py ''Queen'')"
  "map_of (bands (data queen_app)) (py ''Queen'') =
     Some \<lparr>albums = [(py ''Jazz'', \<lparr>image_ref = Some (py ''images/Jazz.png'')\<rparr>)]\<rparr>"
  "fst (validate_input (py '' Innuendo ''))"
  "strip (py '' Innuendo '') = py ''Innuendo''"
  "map_of (files queen_app) (py ''/app/images/Jazz.png'') = Some (Picture 1)"
  "image_ext (py ''/app/images/Jazz.png'') = py ''.png''"
  "locked queen_app = []"
  by (simp_all add: queen_app_def validate_input_def strip_def isspace_def re_search_forbidden_def
        forbidden_def image_ext_def os_path_splitext_def rfind_def lower_def Let_def)

theorem add_associate_remove_witness:
  "selected_band queen_app = Some (py ''Queen'') \<and>
   fst (validate_input (py '' Innuendo '')) \<and>
   map_of (files queen_app) (py ''/app/images/Jazz.png'') = Some (Picture 1) \<and>
   album_of (data (remove_image (py ''/app'') (associate_image (py ''/app'') (py ''/app/images/Jazz.png'')
       (add_album [PressOk (py '' Innuendo '')] queen_app)))) (py ''Queen'') (py ''Innuendo'') =
     Some \<lparr>image_ref = None\<rparr> \<and>
   files (remove_image (py ''/app'') (associate_image (py ''/app'') (py ''/app/images/Jazz.png'')
       (add_album [PressOk (py '' Innuendo '')] queen_app))) = files queen_app"
proof -
  have u: "strip (py '' Innuendo '') \<notin>
      set (keys (albums \<lparr>albums = [(py ''Jazz'', \<lparr>image_ref = Some (py ''images/Jazz.png'')\<rparr>)]\<rparr>))"
    using queen_innuendo(4) by (simp add: keys_def)
  have ext: "allowed_ext (image_ext (py ''/app/images/Jazz.png''))"
    using queen_innuendo(6) by (simp add: allowed_ext_def)
  have lk: "destination (py ''/app'') (files queen_app) (sanitize (strip (py '' Innuendo '')))
      (image_ext (py ''/app/images/Jazz.png'')) \<notin> set (locked queen_app)"
    by (simp add: queen_innuendo(7))
  have ne: "py ''Queen'' \<noteq> []" "py ''/app/images/Jazz.png'' \<noteq> []" by simp_all
  note t = add_associate_remove[OF queen_innuendo(1) ne(1) queen_innuendo(2,3) u ne(2)
      queen_innuendo(5) ext lk]
  show ?thesis
    using t queen_innuendo(1,3,5) unfolding queen_innuendo(4) by simp
qed


end
